theory Spec2Isabelle
  imports Complex_Main "HOL-Library.Multiset"
begin

section \<open>Subtitle word wrap (Player, export frame loop)\<close>

text \<open>
  The export loop wraps the narration before drawing it:
  \<^verbatim>\<open>
  const words = text.split(' ');
  let line = '';
  const lines = [];
  for(let n = 0; n < words.length; n++) {
      const testLine = line + words[n] + ' ';
      const metrics = ctx.measureText(testLine);
      if (metrics.width > maxWidth && n > 0) {
          lines.push(line);
          line = words[n] + ' ';
      } else {
          line = testLine;
      }
  }
  lines.push(line);
  \<close>
  Strings are character lists. \<open>ctx.measureText(s).width\<close> is a parameter
  \<open>measureText :: string \<Rightarrow> real\<close>: the font metrics belong to the browser.
\<close>

text \<open>\<open>s.split(c)\<close> for a one-character separator: the pieces between separators, empty
  pieces kept; never an empty array.\<close>

fun split_on :: "char \<Rightarrow> string \<Rightarrow> string list" where
  "split_on sep [] = [[]]"
| "split_on sep (c # cs) =
     (if c = sep then [] # split_on sep cs
      else (case split_on sep cs of
              [] \<Rightarrow> [[c]]
            | w # ws \<Rightarrow> (c # w) # ws))"

text \<open>\<open>text.split(' ')\<close>.\<close>

definition split_space :: "string \<Rightarrow> string list" where
  "split_space text = split_on (CHR '' '') text"

text \<open>The loop, with its variables \<open>n\<close>, \<open>line\<close> and \<open>lines\<close> as arguments and the
  words still to be read as the last argument.\<close>

fun wrapLoop :: "(string \<Rightarrow> real) \<Rightarrow> real \<Rightarrow> nat \<Rightarrow> string \<Rightarrow> string list \<Rightarrow> string list \<Rightarrow> string list" where
  "wrapLoop measureText maxWidth n line lines [] = lines @ [line]"
| "wrapLoop measureText maxWidth n line lines (w # ws) =
     (let testLine = line @ w @ '' '' in
      if measureText testLine > maxWidth \<and> n > 0
      then wrapLoop measureText maxWidth (Suc n) (w @ '' '') (lines @ [line]) ws
      else wrapLoop measureText maxWidth (Suc n) testLine lines ws)"

definition wordWrap :: "(string \<Rightarrow> real) \<Rightarrow> real \<Rightarrow> string \<Rightarrow> string list" where
  "wordWrap measureText maxWidth text = wrapLoop measureText maxWidth 0 [] [] (split_space text)"

text \<open>A line as the loop builds it from the words it holds: every word followed by one
  space.\<close>

definition joinWords :: "string list \<Rightarrow> string" where
  "joinWords ws = concat (map (\<lambda>w. w @ '' '') ws)"

text \<open>The same loop keeping, for every line, the words on it. It is used only to state
  what the lines of \<open>wrapLoop\<close> are made of.\<close>

fun wrapGroups :: "(string \<Rightarrow> real) \<Rightarrow> real \<Rightarrow> nat \<Rightarrow> string list \<Rightarrow> string list list \<Rightarrow> string list \<Rightarrow> string list list" where
  "wrapGroups measureText maxWidth n cur groups [] = groups @ [cur]"
| "wrapGroups measureText maxWidth n cur groups (w # ws) =
     (if measureText (joinWords (cur @ [w])) > maxWidth \<and> n > 0
      then wrapGroups measureText maxWidth (Suc n) [w] (groups @ [cur]) ws
      else wrapGroups measureText maxWidth (Suc n) (cur @ [w]) groups ws)"

definition wordGroups :: "(string \<Rightarrow> real) \<Rightarrow> real \<Rightarrow> string \<Rightarrow> string list list" where
  "wordGroups measureText maxWidth text = wrapGroups measureText maxWidth 0 [] [] (split_space text)"

text \<open>Every break between two neighbouring lines was forced: the first word of the lower
  line did not fit on the upper one.\<close>

fun breaksForced :: "(string \<Rightarrow> real) \<Rightarrow> real \<Rightarrow> string list list \<Rightarrow> bool" where
  "breaksForced measureText maxWidth (g # h # gs) =
     (h \<noteq> [] \<and> measureText (joinWords (g @ [hd h])) > maxWidth
      \<and> breaksForced measureText maxWidth (h # gs))"
| "breaksForced measureText maxWidth gs = True"

text \<open>Within a line every word after the first was appended because the line with it
  still fitted.\<close>

definition prefixesFit :: "(string \<Rightarrow> real) \<Rightarrow> real \<Rightarrow> string list \<Rightarrow> bool" where
  "prefixesFit measureText maxWidth g =
     (\<forall>k \<in> {2 ..< Suc (length g)}. measureText (joinWords (take k g)) \<le> maxWidth)"

text \<open>A measure for examples: every character ten pixels wide.\<close>

definition charWidth10 :: "string \<Rightarrow> real" where
  "charWidth10 s = 10 * real (length s)"

section \<open>Retry with backoff (services/gemini, \<open>retryOperation\<close>)\<close>

text \<open>
  \<^verbatim>\<open>
  const retryOperation = async <T>(operation: () => Promise<T>, maxRetries = 5,
                                   initialDelay = 3000): Promise<T> => {
      let delay = initialDelay;
      for (let i = 0; i < maxRetries; i++) {
          try {
              return await operation();
          } catch (error: any) {
              const msg = error?.message || '';
              const status = error?.status || error?.error?.code;
              const isRateLimit = status === 429 || msg.includes('429') || msg.includes('quota')
                  || msg.includes('RESOURCE_EXHAUSTED') || msg.includes('rate limit');
              const isLastAttempt = i === maxRetries - 1;
              if (isRateLimit && !isLastAttempt) {
                  const jitter = Math.random() * 1000;
                  const waitTime = delay + jitter;
                  await new Promise(resolve => setTimeout(resolve, waitTime));
                  delay *= 1.5;
                  continue;
              }
              throw error;
          }
      }
      throw new Error("Operation failed after retries");
  };
  \<close>
  A thrown value is a record of the three fields the handler reads. The operation is a
  function from the number of the call (from 0) to what that call does: it throws (\<open>Inl\<close>)
  or returns (\<open>Inr\<close>). \<open>Math.random()\<close> is a function of the attempt as well.
  \<open>maxRetries\<close> is a whole number of attempts (a negative number runs the loop as 0 does).
\<close>

record js_error =
  message :: string
  status :: "int option"
  errorCode :: "int option"

text \<open>\<open>msg.includes(t)\<close>: \<open>t\<close> occurs in \<open>msg\<close> as a contiguous piece.\<close>

fun includes_str :: "string \<Rightarrow> string \<Rightarrow> bool" where
  "includes_str [] t = (t = [])"
| "includes_str (c # cs) t = (take (length t) (c # cs) = t \<or> includes_str cs t)"

text \<open>\<open>error?.status || error?.error?.code\<close>: the status unless it is missing or 0.\<close>

definition statusOf :: "js_error \<Rightarrow> int option" where
  "statusOf e = (case status e of
                   None \<Rightarrow> errorCode e
                 | Some s \<Rightarrow> if s = 0 then errorCode e else Some s)"

definition isRateLimit :: "js_error \<Rightarrow> bool" where
  "isRateLimit e =
     (statusOf e = Some 429
      \<or> includes_str (message e) ''429''
      \<or> includes_str (message e) ''quota''
      \<or> includes_str (message e) ''RESOURCE_EXHAUSTED''
      \<or> includes_str (message e) ''rate limit'')"

definition failedAfterRetries :: js_error where
  "failedAfterRetries = \<lparr>message = ''Operation failed after retries'', status = None, errorCode = None\<rparr>"

text \<open>What a run of the wrapper did: how it ended, how many times it called the
  operation, and the waits between the calls, in milliseconds.\<close>

record 'a retry_run =
  outcome :: "js_error + 'a"
  attempts :: nat
  waits :: "real list"

function retryLoop ::
  "(nat \<Rightarrow> js_error + 'a) \<Rightarrow> (nat \<Rightarrow> real) \<Rightarrow> nat \<Rightarrow> nat \<Rightarrow> real \<Rightarrow> real list \<Rightarrow> 'a retry_run" where
  "retryLoop operation random maxRetries i delay ws =
     (if i < maxRetries then
        (case operation i of
           Inr v \<Rightarrow> \<lparr>outcome = Inr v, attempts = Suc i, waits = ws\<rparr>
         | Inl error \<Rightarrow>
             (if isRateLimit error \<and> \<not> (int i = int maxRetries - 1)
              then retryLoop operation random maxRetries (Suc i) (delay * 1.5)
                     (ws @ [delay + random i * 1000])
              else \<lparr>outcome = Inl error, attempts = Suc i, waits = ws\<rparr>))
      else \<lparr>outcome = Inl failedAfterRetries, attempts = i, waits = ws\<rparr>)"
  by pat_completeness auto
termination
  by (relation "measure (\<lambda>(operation, random, maxRetries, i, delay, ws). maxRetries - i)") auto

definition retryOperation ::
  "(nat \<Rightarrow> js_error + 'a) \<Rightarrow> (nat \<Rightarrow> real) \<Rightarrow> nat \<Rightarrow> real \<Rightarrow> 'a retry_run" where
  "retryOperation operation random maxRetries initialDelay =
     retryLoop operation random maxRetries 0 initialDelay []"

text \<open>The calls numbered \<open>i\<close> up to \<open>k - 1\<close> all throw a rate-limit error.\<close>

definition rateLimitedFrom :: "(nat \<Rightarrow> js_error + 'a) \<Rightarrow> nat \<Rightarrow> nat \<Rightarrow> bool" where
  "rateLimitedFrom operation i k =
     (\<forall>j \<in> {i ..< k}. case operation j of Inl e \<Rightarrow> isRateLimit e | Inr v \<Rightarrow> False)"

text \<open>A fake operation that throws the error \<open>e\<close> on its first \<open>k\<close> calls and returns \<open>v\<close>
  from then on.\<close>

definition failsThenSucceeds :: "js_error \<Rightarrow> nat \<Rightarrow> 'a \<Rightarrow> nat \<Rightarrow> js_error + 'a" where
  "failsThenSucceeds e k v j = (if j < k then Inl e else Inr v)"

text \<open>A fake operation that throws \<open>e\<close> on its first \<open>k\<close> calls and \<open>e'\<close> from then on.\<close>

definition failsThenThrows :: "js_error \<Rightarrow> nat \<Rightarrow> js_error \<Rightarrow> nat \<Rightarrow> js_error + nat" where
  "failsThenThrows e k e' j = (if j < k then Inl e else Inl e')"

definition quotaError :: js_error where
  "quotaError = \<lparr>message = ''You exceeded your current quota'', status = Some 429, errorCode = None\<rparr>"

definition notFoundError :: js_error where
  "notFoundError = \<lparr>message = ''model not found'', status = Some 404, errorCode = None\<rparr>"

section \<open>Data model (types.ts, PlayerProps)\<close>

datatype SubtitleStyle = MODERN | KARAOKE | CLASSIC | MINIMAL

datatype AspectRatio = Ratio_16_9 | Ratio_9_16

text \<open>An optional field (\<open>imageUrl?: string\<close>) is an \<open>option\<close>; \<open>id\<close> and \<open>error\<close> are
  named \<open>sceneId\<close> and \<open>sceneError\<close> here.\<close>

record Scene =
  sceneId :: string
  narration :: string
  visualPrompt :: string
  imageUrl :: "string option"
  audioUrl :: "string option"
  audioDuration :: "real option"
  isGeneratingImage :: "bool option"
  isGeneratingAudio :: "bool option"
  sceneError :: "string option"

record PlayerProps =
  scenes :: "Scene list"
  backgroundMusicUrl :: "string option"
  aspectRatio :: AspectRatio
  musicVolume :: real
  subtitleStyle :: SubtitleStyle
  showSubtitles :: bool

text \<open>\<open>if (scene.audioUrl)\<close>: a string is truthy when it is present and not empty.\<close>

definition truthy :: "string option \<Rightarrow> bool" where
  "truthy u = (case u of None \<Rightarrow> False | Some s \<Rightarrow> s \<noteq> [])"

text \<open>The hidden canvas: \<open>width={aspectRatio === '16:9' ? 1920 : 1080}\<close>,
  \<open>height={aspectRatio === '16:9' ? 1080 : 1920}\<close>.\<close>

definition canvasWidth :: "AspectRatio \<Rightarrow> real" where
  "canvasWidth a = (if a = Ratio_16_9 then 1920 else 1080)"

definition canvasHeight :: "AspectRatio \<Rightarrow> real" where
  "canvasHeight a = (if a = Ratio_16_9 then 1080 else 1920)"

section \<open>The browser, as far as the Player reads it\<close>

text \<open>
  What the export asks of the browser is a record of answers:
  \<^item> \<open>canvasPresent\<close>: \<open>canvasRef.current\<close> is not null;
  \<^item> \<open>contextAvailable\<close>: \<open>canvas.getContext('2d', ...)\<close> is not null;
  \<^item> \<open>audioContextAvailable\<close>: \<open>new AudioContextClass()\<close> and the nodes made from it do not
    throw;
  \<^item> \<open>recorderAvailable\<close>: \<open>canvas.captureStream\<close>, \<open>new MediaRecorder(...)\<close> with the fixed
    mime type and \<open>recorder.start()\<close> do not throw;
  \<^item> \<open>decodeAudio url\<close>: \<open>fetch\<close>, \<open>arrayBuffer\<close> and \<open>decodeAudioData\<close> in a row: the
    buffer's \<open>duration\<close> in seconds, or \<open>None\<close> when one of the three throws;
  \<^item> \<open>loadImage url\<close>: the width and height of the image when \<open>onload\<close> fires, \<open>None\<close>
    when \<open>onerror\<close> fires;
  \<^item> \<open>fetchBlob url\<close>: whether \<open>fetch\<close> and \<open>blob()\<close> succeed (asset download);
  \<^item> \<open>zipGenerates\<close>: whether \<open>zip.generateAsync\<close> succeeds;
  \<^item> \<open>measureTextWidth\<close>: \<open>ctx.measureText(s).width\<close> in the font \<open>bold 48px sans-serif\<close>;
  \<^item> \<open>frameCost i j\<close>: the milliseconds the synchronous drawing of frame \<open>j\<close> of scene \<open>i\<close>
    takes, as \<open>Date.now()\<close> sees them;
  \<^item> \<open>timerLate i j\<close>: the milliseconds by which the \<open>setTimeout\<close> after that frame fires
    late;
  \<^item> \<open>finishTime\<close>: \<open>Date.now()\<close> when the file name is made.
  Time is in whole milliseconds, as \<open>Date.now()\<close> gives it, and does not run backwards.
\<close>

record Browser =
  canvasPresent :: bool
  contextAvailable :: bool
  audioContextAvailable :: bool
  recorderAvailable :: bool
  decodeAudio :: "string \<Rightarrow> real option"
  loadImage :: "string \<Rightarrow> (real \<times> real) option"
  fetchBlob :: "string \<Rightarrow> bool"
  zipGenerates :: bool
  measureTextWidth :: "string \<Rightarrow> real"
  frameCost :: "nat \<Rightarrow> nat \<Rightarrow> nat"
  timerLate :: "nat \<Rightarrow> nat \<Rightarrow> nat"
  finishTime :: nat

section \<open>Drawing one frame (export loop body)\<close>

text \<open>The calls on the 2D context, in the order the code makes them.\<close>

datatype draw_op =
    FillStyle string
  | FillRect real real real real
  | Save
  | Restore
  | Translate real real
  | Scale real real
  | DrawImage string real real real real
  | Font string
  | TextAlign string
  | TextBaseline string
  | ShadowColor string
  | ShadowBlur real
  | ShadowOffsetX real
  | ShadowOffsetY real
  | FillText string real real

text \<open>\<open>img\<close> after part A of the scene loop: \<open>null\<close>, an image that loaded, or an image
  whose \<open>onerror\<close> fired.\<close>

datatype image_state = NoImage | Loaded string real real | Broken string

datatype export_error =
    NoCanvas
  | NoContext
  | AudioContextFailed
  | RecorderFailed
  | BrokenImageDrawn string

text \<open>\<open>const scale = 1.0 + (0.15 * progress)\<close>.\<close>

definition zoomScale :: "real \<Rightarrow> real" where
  "zoomScale progress = 1.0 + (0.15 * progress)"

text \<open>
  \<^verbatim>\<open>
  if (img) {
      const w = canvas.width; const h = canvas.height;
      const imgRatio = img.width / img.height;
      const canvasRatio = w / h;
      let drawW, drawH;
      if (imgRatio > canvasRatio) { drawH = h; drawW = h * imgRatio; }
      else { drawW = w; drawH = w / imgRatio; }
      const offsetX = (w - drawW) / 2;
      const offsetY = (h - drawH) / 2;
      ctx.save();
      ctx.translate(w/2, h/2);
      ctx.scale(scale, scale);
      ctx.translate(-w/2, -h/2);
      ctx.drawImage(img, offsetX, offsetY, drawW, drawH);
      ctx.restore();
  }
  \<close>
  \<open>drawImage\<close> with an image element in the broken state throws (InvalidStateError, HTML
  standard, "check the usability of the image argument"); the throw leaves the export's
  \<open>try\<close> block. A loaded image has positive width and height.
\<close>

definition drawImageOps :: "real \<Rightarrow> real \<Rightarrow> real \<Rightarrow> image_state \<Rightarrow> export_error + draw_op list" where
  "drawImageOps w h scale img =
     (case img of
        NoImage \<Rightarrow> Inr []
      | Broken url \<Rightarrow> Inl (BrokenImageDrawn url)
      | Loaded url imgW imgH \<Rightarrow>
          (let imgRatio = imgW / imgH;
               canvasRatio = w / h;
               drawW = (if imgRatio > canvasRatio then h * imgRatio else w);
               drawH = (if imgRatio > canvasRatio then h else w / imgRatio);
               offsetX = (w - drawW) / 2;
               offsetY = (h - drawH) / 2
           in Inr [Save, Translate (w / 2) (h / 2), Scale scale scale,
                   Translate (- w / 2) (- h / 2),
                   DrawImage url offsetX offsetY drawW drawH, Restore]))"

text \<open>
  \<^verbatim>\<open>
  lines.forEach((line, i) => {
      const lineY = y - ((lines.length - 1 - i) * 60);
      if (subtitleStyle === SubtitleStyle.MODERN) {
           const textWidth = ctx.measureText(line).width;
           ctx.fillStyle = "rgba(0,0,0,0.6)";
           ctx.fillRect(x - textWidth/2 - 10, lineY - 48, textWidth + 20, 60);
      }
      ctx.fillStyle = subtitleStyle === SubtitleStyle.CLASSIC ? '#FFD700' : '#ffffff';
      ctx.fillText(line, x, lineY);
  });
  \<close>
\<close>

definition lineOps ::
  "(string \<Rightarrow> real) \<Rightarrow> SubtitleStyle \<Rightarrow> real \<Rightarrow> real \<Rightarrow> nat \<Rightarrow> nat \<Rightarrow> string \<Rightarrow> draw_op list" where
  "lineOps textWidthOf style x y lineCount i line =
     (let lineY = y - (real lineCount - 1 - real i) * 60 in
      (if style = MODERN
       then (let textWidth = textWidthOf line in
             [FillStyle ''rgba(0,0,0,0.6)'',
              FillRect (x - textWidth / 2 - 10) (lineY - 48) (textWidth + 20) 60])
       else [])
      @ [FillStyle (if style = CLASSIC then ''#FFD700'' else ''#ffffff''),
         FillText line x lineY])"

text \<open>The \<open>forEach\<close> over the lines, from index \<open>i\<close> on.\<close>

fun linesOps ::
  "(string \<Rightarrow> real) \<Rightarrow> SubtitleStyle \<Rightarrow> real \<Rightarrow> real \<Rightarrow> nat \<Rightarrow> nat \<Rightarrow> string list \<Rightarrow> draw_op list" where
  "linesOps textWidthOf style x y lineCount i [] = []"
| "linesOps textWidthOf style x y lineCount i (line # rest) =
     lineOps textWidthOf style x y lineCount i line @ linesOps textWidthOf style x y lineCount (Suc i) rest"

text \<open>
  \<^verbatim>\<open>
  if (showSubtitles && scene.narration) {
      ctx.font = "bold 48px sans-serif";
      ctx.textAlign = "center";
      ctx.textBaseline = "bottom";
      ctx.shadowColor = "rgba(0,0,0,0.8)";
      ctx.shadowBlur = 4;
      ctx.shadowOffsetX = 2;
      ctx.shadowOffsetY = 2;
      const text = scene.narration;
      const maxWidth = canvas.width * 0.8;
      const x = canvas.width / 2;
      const y = canvas.height - 100;
      ... word wrap, lines.forEach ...
      ctx.shadowColor = "transparent";
  }
  \<close>
\<close>

definition subtitleOps ::
  "(string \<Rightarrow> real) \<Rightarrow> SubtitleStyle \<Rightarrow> bool \<Rightarrow> real \<Rightarrow> real \<Rightarrow> string \<Rightarrow> draw_op list" where
  "subtitleOps textWidthOf style showSubs w h narr =
     (if showSubs \<and> narr \<noteq> [] then
        (let maxWidth = w * 0.8;
             x = w / 2;
             y = h - 100;
             lines = wordWrap textWidthOf maxWidth narr
         in [Font ''bold 48px sans-serif'', TextAlign ''center'', TextBaseline ''bottom'',
             ShadowColor ''rgba(0,0,0,0.8)'', ShadowBlur 4, ShadowOffsetX 2, ShadowOffsetY 2]
            @ linesOps textWidthOf style x y (length lines) 0 lines
            @ [ShadowColor ''transparent''])
      else [])"

text \<open>One pass of the loop body up to the waiting: clear, image, subtitles.\<close>

definition drawFrame ::
  "Browser \<Rightarrow> PlayerProps \<Rightarrow> Scene \<Rightarrow> image_state \<Rightarrow> real \<Rightarrow> export_error + draw_op list" where
  "drawFrame env props scene img scale =
     (let w = canvasWidth (aspectRatio props); h = canvasHeight (aspectRatio props) in
      case drawImageOps w h scale img of
        Inl e \<Rightarrow> Inl e
      | Inr imageOps \<Rightarrow>
          Inr ([FillStyle ''#000'', FillRect 0 0 w h] @ imageOps
               @ subtitleOps (measureTextWidth env) (subtitleStyle props) (showSubtitles props)
                   w h (narration scene)))"

section \<open>The animation loop of one scene\<close>

text \<open>
  \<^verbatim>\<open>
  const startTime = Date.now();
  const fps = 30;
  const frameInterval = 1000 / fps;
  let loopTime = 0;
  while (loopTime < durationMs) {
      const loopStart = Date.now();
      const progress = loopTime / durationMs;
      const scale = 1.0 + (0.15 * progress);
      ... draw ...
      const elapsed = Date.now() - loopStart;
      const delay = Math.max(0, frameInterval - elapsed);
      await new Promise(r => setTimeout(r, delay));
      loopTime = Date.now() - startTime;
  }
  \<close>
  Between \<open>loopStart\<close> and the next reading of the clock the drawing takes
  \<open>frameCost\<close> milliseconds; the timer waits the whole milliseconds of \<open>delay\<close> (the timeout
  of \<open>setTimeout\<close> is a \<open>long\<close>) and \<open>timerLate\<close> more. So \<open>loopTime\<close> after the pass is
  \<open>loopTime\<close> before it plus \<open>frameAdvance\<close>.
\<close>

definition frameInterval :: real where
  "frameInterval = 1000 / 30"

definition frameDelay :: "nat \<Rightarrow> real" where
  "frameDelay elapsed = max 0 (frameInterval - real elapsed)"

definition frameAdvance :: "Browser \<Rightarrow> nat \<Rightarrow> nat \<Rightarrow> nat" where
  "frameAdvance env i j =
     frameCost env i j + nat \<lfloor>frameDelay (frameCost env i j)\<rfloor> + timerLate env i j"

record frame =
  frameLoopTime :: nat
  frameProgress :: real
  frameScale :: real
  frameOps :: "draw_op list"
  frameWait :: real

function renderLoop ::
  "Browser \<Rightarrow> PlayerProps \<Rightarrow> Scene \<Rightarrow> image_state \<Rightarrow> nat \<Rightarrow> real \<Rightarrow> nat \<Rightarrow> nat \<Rightarrow> frame list
     \<Rightarrow> export_error + (frame list \<times> nat)" where
  "renderLoop env props scene img i durationMs j loopTime acc =
     (if real loopTime < durationMs then
        (let progress = real loopTime / durationMs;
             scale = zoomScale progress
         in case drawFrame env props scene img scale of
              Inl e \<Rightarrow> Inl e
            | Inr ops \<Rightarrow>
                renderLoop env props scene img i durationMs (Suc j)
                  (loopTime + frameAdvance env i j)
                  (acc @ [\<lparr>frameLoopTime = loopTime, frameProgress = progress,
                            frameScale = scale, frameOps = ops,
                            frameWait = frameDelay (frameCost env i j)\<rparr>]))
      else Inr (acc, loopTime))"
  by pat_completeness auto
termination
proof (relation "measure (\<lambda>(env, props, scene, img, i, durationMs, j, loopTime, acc).
                    nat \<lceil>durationMs\<rceil> - loopTime)")
  show "wf (measure (\<lambda>(env, props, scene, img, i, durationMs, j, loopTime, acc).
                    nat \<lceil>durationMs\<rceil> - loopTime))"
    by simp
next
  fix env :: Browser and props :: PlayerProps and scene :: Scene and img :: image_state
    and i :: nat and durationMs :: real and j loopTime :: nat and acc :: "frame list"
    and x xa and x2 :: "draw_op list"
  assume lt: "real loopTime < durationMs"
  have "33 \<le> frameAdvance env i j"
  proof (cases "frameCost env i j \<le> 33")
    case True
    then have "real (frameCost env i j) \<le> 33" by simp
    then have "frameDelay (frameCost env i j) = 1000 / 30 - real (frameCost env i j)"
      by (simp add: frameDelay_def frameInterval_def)
    moreover have "\<lfloor>1000 / 30 - real (frameCost env i j)\<rfloor> = 33 - int (frameCost env i j)"
      by (rule floor_unique) simp_all
    ultimately show ?thesis using True by (simp add: frameAdvance_def)
  next
    case False
    then show ?thesis by (simp add: frameAdvance_def)
  qed
  moreover have "loopTime < nat \<lceil>durationMs\<rceil>"
  proof -
    from lt have "of_int (int loopTime) < durationMs" by simp
    then have "int loopTime < \<lceil>durationMs\<rceil>" by (simp only: less_ceiling_iff)
    then show ?thesis by (simp add: zless_nat_eq_int_zless)
  qed
  ultimately show "((env, props, scene, img, i, durationMs, Suc j, loopTime + frameAdvance env i j,
            acc @ [\<lparr>frameLoopTime = loopTime, frameProgress = x, frameScale = xa, frameOps = x2,
                     frameWait = frameDelay (frameCost env i j)\<rparr>]),
           env, props, scene, img, i, durationMs, j, loopTime, acc)
          \<in> measure (\<lambda>(env, props, scene, img, i, durationMs, j, loopTime, acc).
                    nat \<lceil>durationMs\<rceil> - loopTime)"
    by simp
qed

section \<open>What the Player changes (component state, page, resources)\<close>

text \<open>
  The effects of the handlers are changes of one record: the component's state flags,
  \<open>document.title\<close>, the console, the alerts shown, the files handed to the download
  mechanism, and the media resources in use: audio contexts created and not closed, looping
  buffer sources started and not stopped, recorders started and not stopped. The two alert
  texts are the constructors of \<open>user_alert\<close>: "Erro ao exportar video. Tente a opcao
  'Baixar Assets' se o problema persistir." and "Erro ao criar arquivo ZIP." (with their
  accents in the source).
\<close>

datatype console_entry = ConsoleWarn string | ConsoleError string

datatype user_alert = AlertExportFailed | AlertZipFailed

text \<open>What the recorder took of one scene: the duration the loop ran against, the
  narration buffer played into the destination at the start of the scene (its length in
  seconds; \<open>None\<close>: no narration), the frames drawn, and \<open>loopTime\<close> when the loop
  ended.\<close>

record scene_render =
  renderIndex :: nat
  renderDurationMs :: real
  renderNarration :: "real option"
  renderFrames :: "frame list"
  renderEnd :: nat

text \<open>The recorded file: its name, the gain of the looping music (\<open>None\<close>: no music
  source was started), and the scenes in order.\<close>

record video_file =
  videoName :: string
  videoMusicGain :: "real option"
  videoScenes :: "scene_render list"

datatype zip_entry =
    ZipText string string
  | ZipBase64 string string
  | ZipBlob string string

datatype download = VideoDownload video_file | ZipDownload string "zip_entry list"

record World =
  isPlaying :: bool
  isExporting :: bool
  isZipping :: bool
  documentTitle :: string
  consoleLog :: "console_entry list"
  alerts :: "user_alert list"
  downloads :: "download list"
  openAudioContexts :: nat
  loopingSources :: nat
  activeRecorders :: nat

definition logWarn :: "string \<Rightarrow> World \<Rightarrow> World" where
  "logWarn msg w = w\<lparr>consoleLog := consoleLog w @ [ConsoleWarn msg]\<rparr>"

definition logError :: "string \<Rightarrow> World \<Rightarrow> World" where
  "logError msg w = w\<lparr>consoleLog := consoleLog w @ [ConsoleError msg]\<rparr>"

text \<open>Decimal digits of a number, as a template string prints it.\<close>

fun natToString :: "nat \<Rightarrow> string" where
  "natToString n =
     (if n < 10 then [char_of (48 + n)]
      else natToString (n div 10) @ [char_of (48 + n mod 10)])"

text \<open>\<open>s.padStart(2, '0')\<close>.\<close>

definition padStart2 :: "string \<Rightarrow> string" where
  "padStart2 s = replicate (2 - length s) (CHR ''0'') @ s"

text \<open>\<open>parts.join(sep)\<close>.\<close>

fun joinWith :: "string \<Rightarrow> string list \<Rightarrow> string" where
  "joinWith sep [] = []"
| "joinWith sep [x] = x"
| "joinWith sep (x # y # ys) = x @ sep @ joinWith sep (y # ys)"

section \<open>Export: the scene loop (\<open>handleExportVideo\<close>, part 5)\<close>

text \<open>
  \<^verbatim>\<open>
  let img: HTMLImageElement | null = null;
  if (scene.imageUrl) {
      img = new Image(); ...
      await new Promise((resolve) => { img!.onload = resolve; img!.onerror = resolve; ... });
  }
  \<close>
\<close>

definition loadSceneImage :: "Browser \<Rightarrow> Scene \<Rightarrow> image_state" where
  "loadSceneImage env scene =
     (case imageUrl scene of
        None \<Rightarrow> NoImage
      | Some url \<Rightarrow>
          if url = [] then NoImage
          else (case loadImage env url of
                  None \<Rightarrow> Broken url
                | Some (imgW, imgH) \<Rightarrow> Loaded url imgW imgH))"

text \<open>
  \<^verbatim>\<open>
  let durationMs = 3000; // Default 3s
  if (scene.audioUrl) {
      try {
          const resp = await fetch(scene.audioUrl);
          const ab = await resp.arrayBuffer();
          const audioBuffer = await actx.decodeAudioData(ab);
          durationMs = audioBuffer.duration * 1000;
          const source = actx.createBufferSource();
          source.buffer = audioBuffer;
          source.connect(dest);
          source.start(actx.currentTime);
      } catch(e) {
          console.warn("Failed to load scene audio", e);
      }
  }
  durationMs += 500;
  \<close>
  \<open>loadSceneAudio\<close> is the decoded buffer's duration in seconds when the \<open>try\<close> block got
  it, \<open>None\<close> when there is no audio reference or the block threw. Making and starting the
  buffer source is taken not to throw.
\<close>

definition loadSceneAudio :: "Browser \<Rightarrow> Scene \<Rightarrow> real option" where
  "loadSceneAudio env scene =
     (case audioUrl scene of
        None \<Rightarrow> None
      | Some url \<Rightarrow> if url = [] then None else decodeAudio env url)"

definition sceneDurationMs :: "real option \<Rightarrow> real" where
  "sceneDurationMs decoded =
     (case decoded of None \<Rightarrow> 3000 | Some seconds \<Rightarrow> seconds * 1000) + 500"

text \<open>The \<open>for (const scene of scenes)\<close> loop, from the scene numbered \<open>i\<close> on. A throw
  inside it (drawing a broken image) ends it with the error.\<close>

fun processScenes ::
  "Browser \<Rightarrow> PlayerProps \<Rightarrow> nat \<Rightarrow> Scene list \<Rightarrow> World \<Rightarrow> scene_render list
     \<Rightarrow> (export_error + scene_render list) \<times> World" where
  "processScenes env props i [] w acc = (Inr acc, w)"
| "processScenes env props i (scene # rest) w acc =
     (let img = loadSceneImage env scene;
          decoded = loadSceneAudio env scene;
          w' = (if truthy (audioUrl scene) \<and> decoded = None
                then logWarn ''Failed to load scene audio'' w else w);
          durationMs = sceneDurationMs decoded
      in case renderLoop env props scene img i durationMs 0 0 [] of
           Inl e \<Rightarrow> (Inl e, w')
         | Inr (frames, endTime) \<Rightarrow>
             processScenes env props (Suc i) rest w'
               (acc @ [\<lparr>renderIndex = i, renderDurationMs = durationMs,
                         renderNarration = decoded, renderFrames = frames,
                         renderEnd = endTime\<rparr>]))"

section \<open>Export: \<open>handleExportVideo\<close>\<close>

text \<open>
  \<^verbatim>\<open>
  const handleExportVideo = async () => {
    if (scenes.length === 0) return;
    setIsExporting(true);
    setIsPlaying(false);
    const originalTitle = document.title;
    document.title = "Renderizando...";
    try {
        const canvas = canvasRef.current;
        if(!canvas) throw new Error("No canvas");
        const ctx = canvas.getContext('2d', { alpha: false });
        if(!ctx) throw new Error("No context");
        const actx = new AudioContextClass();
        const dest = actx.createMediaStreamDestination();
        const musicGain = actx.createGain();
        musicGain.gain.value = musicVolume;
        musicGain.connect(dest);
        let musicBuffer: AudioBuffer | null = null;
        if (backgroundMusicUrl) {
            try { ... musicBuffer = await actx.decodeAudioData(ab); }
            catch (e) { console.warn("Failed to load background music for export", e); }
        }
        let musicSource: AudioBufferSourceNode | null = null;
        if (musicBuffer) { musicSource = actx.createBufferSource(); ... musicSource.start(0); }
        const canvasStream = canvas.captureStream(30);
        ...
        const recorder = new MediaRecorder(combinedStream, { ... });
        ...
        recorder.start();
        for (const scene of scenes) { ... }
        musicSource?.stop();
        recorder.stop();
        await recordingPromise;
        actx.close();
        const blob = new Blob(chunks, { type: 'video/webm' });
        ...
        a.download = `video_${Date.now()}.webm`;
        a.click();
    } catch (e) {
        console.error("Export failed", e);
        alert("Erro ao exportar video. ...");
    } finally {
        setIsExporting(false);
        document.title = originalTitle;
    }
  };
  \<close>
\<close>

text \<open>The \<open>catch\<close> block.\<close>

definition exportFailed :: "World \<Rightarrow> World" where
  "exportFailed w = (logError ''Export failed'' w)\<lparr>alerts := alerts w @ [AlertExportFailed]\<rparr>"

definition loadMusic :: "Browser \<Rightarrow> PlayerProps \<Rightarrow> real option" where
  "loadMusic env props =
     (case backgroundMusicUrl props of
        None \<Rightarrow> None
      | Some url \<Rightarrow> if url = [] then None else decodeAudio env url)"

text \<open>The \<open>try\<close> block with its \<open>catch\<close>.\<close>

definition exportTry :: "Browser \<Rightarrow> PlayerProps \<Rightarrow> World \<Rightarrow> World" where
  "exportTry env props w =
     (if \<not> canvasPresent env then exportFailed w
      else if \<not> contextAvailable env then exportFailed w
      else if \<not> audioContextAvailable env then exportFailed w
      else
        (let w1 = w\<lparr>openAudioContexts := Suc (openAudioContexts w)\<rparr>;
             musicBuffer = loadMusic env props;
             w2 = (if truthy (backgroundMusicUrl props) \<and> musicBuffer = None
                   then logWarn ''Failed to load background music for export'' w1 else w1);
             w3 = (if musicBuffer \<noteq> None
                   then w2\<lparr>loopingSources := Suc (loopingSources w2)\<rparr> else w2)
         in if \<not> recorderAvailable env then exportFailed w3
            else
              (let w4 = w3\<lparr>activeRecorders := Suc (activeRecorders w3)\<rparr>
               in case processScenes env props 0 (scenes props) w4 [] of
                    (Inl e, w5) \<Rightarrow> exportFailed w5
                  | (Inr renders, w5) \<Rightarrow>
                      w5\<lparr>loopingSources :=
                            (if musicBuffer \<noteq> None then loopingSources w5 - 1
                             else loopingSources w5),
                          activeRecorders := activeRecorders w5 - 1,
                          openAudioContexts := openAudioContexts w5 - 1,
                          downloads := downloads w5 @
                            [VideoDownload
                               \<lparr>videoName = ''video_'' @ natToString (finishTime env) @ ''.webm'',
                                videoMusicGain =
                                  (if musicBuffer \<noteq> None then Some (musicVolume props) else None),
                                videoScenes = renders\<rparr>]\<rparr>)))"

text \<open>The statements before the \<open>try\<close>, which run at once when the handler is called.\<close>

definition exportBegin :: "World \<Rightarrow> World" where
  "exportBegin w = w\<lparr>isExporting := True, isPlaying := False, documentTitle := ''Renderizando...''\<rparr>"

text \<open>The rest of an invocation: \<open>try\<close>, \<open>catch\<close> and \<open>finally\<close>, with the title it saved.\<close>

definition exportSettle :: "Browser \<Rightarrow> PlayerProps \<Rightarrow> string \<Rightarrow> World \<Rightarrow> World" where
  "exportSettle env props originalTitle w =
     (exportTry env props w)\<lparr>isExporting := False, documentTitle := originalTitle\<rparr>"

text \<open>One invocation from call to settlement.\<close>

definition handleExportVideo :: "Browser \<Rightarrow> PlayerProps \<Rightarrow> World \<Rightarrow> World" where
  "handleExportVideo env props w =
     (if length (scenes props) = 0 then w
      else exportSettle env props (documentTitle w) (exportBegin w))"

section \<open>Asset download: \<open>handleDownloadZip\<close>\<close>

text \<open>
  \<^verbatim>\<open>
  const handleDownloadZip = async () => {
    if (scenes.length === 0) return;
    setIsZipping(true);
    try {
        const zip = new JSZip();
        const mediaFolder = zip.folder("media");
        const scriptFolder = zip.folder("script");
        const scriptContent = scenes.map((s, i) =>
            `Scene ${i+1}:\nNarration: ${s.narration}\nVisual Prompt: ${s.visualPrompt}\n`
        ).join('\n---\n');
        scriptFolder?.file("script.txt", scriptContent);
        await Promise.all(scenes.map(async (scene, i) => {
            const index = (i + 1).toString().padStart(2, '0');
            if (scene.imageUrl) {
                const base64Data = scene.imageUrl.split(',')[1];
                if (base64Data) { mediaFolder?.file(`scene_${index}.jpg`, base64Data, {base64: true}); }
            }
            if (scene.audioUrl) {
                try {
                    const response = await fetch(scene.audioUrl);
                    const blob = await response.blob();
                    mediaFolder?.file(`scene_${index}.wav`, blob);
                } catch (e) { console.error("Failed to add audio to zip", e); }
            }
        }));
        const content = await zip.generateAsync({type: "blob"});
        ...
        a.download = "projeto_video_ia_assets.zip";
        a.click();
    } catch (e) {
        console.error("Zip failed", e);
        alert("Erro ao criar arquivo ZIP.");
    } finally {
        setIsZipping(false);
    }
  };
  \<close>
  The images are added while the callbacks start, in scene order; the audio files as their
  fetches settle, taken here in scene order too.
\<close>

definition newline :: char where
  "newline = CHR 0x0A"

fun sceneScripts :: "nat \<Rightarrow> Scene list \<Rightarrow> string list" where
  "sceneScripts i [] = []"
| "sceneScripts i (s # rest) =
     (''Scene '' @ natToString (i + 1) @ '':'' @ [newline]
        @ ''Narration: '' @ narration s @ [newline]
        @ ''Visual Prompt: '' @ visualPrompt s @ [newline])
     # sceneScripts (Suc i) rest"

definition scriptContent :: "Scene list \<Rightarrow> string" where
  "scriptContent ss = joinWith ([newline] @ ''---'' @ [newline]) (sceneScripts 0 ss)"

definition sceneIndexLabel :: "nat \<Rightarrow> string" where
  "sceneIndexLabel i = padStart2 (natToString (i + 1))"

definition imageEntry :: "nat \<Rightarrow> Scene \<Rightarrow> zip_entry list" where
  "imageEntry i scene =
     (case imageUrl scene of
        None \<Rightarrow> []
      | Some url \<Rightarrow>
          if url = [] then []
          else (case split_on (CHR '','') url of
                  a # base64Data # rest \<Rightarrow>
                    if base64Data \<noteq> []
                    then [ZipBase64 (''media/scene_'' @ sceneIndexLabel i @ ''.jpg'') base64Data]
                    else []
                | _ \<Rightarrow> []))"

fun imageEntries :: "nat \<Rightarrow> Scene list \<Rightarrow> zip_entry list" where
  "imageEntries i [] = []"
| "imageEntries i (scene # rest) = imageEntry i scene @ imageEntries (Suc i) rest"

fun audioEntries :: "Browser \<Rightarrow> nat \<Rightarrow> Scene list \<Rightarrow> World \<Rightarrow> zip_entry list \<times> World" where
  "audioEntries env i [] w = ([], w)"
| "audioEntries env i (scene # rest) w =
     (case audioUrl scene of
        None \<Rightarrow> audioEntries env (Suc i) rest w
      | Some url \<Rightarrow>
          if url = [] then audioEntries env (Suc i) rest w
          else if fetchBlob env url
          then (let (es, w') = audioEntries env (Suc i) rest w
                in (ZipBlob (''media/scene_'' @ sceneIndexLabel i @ ''.wav'') url # es, w'))
          else audioEntries env (Suc i) rest (logError ''Failed to add audio to zip'' w))"

definition zipTry :: "Browser \<Rightarrow> PlayerProps \<Rightarrow> World \<Rightarrow> World" where
  "zipTry env props w =
     (let script = ZipText ''script/script.txt'' (scriptContent (scenes props));
          images = imageEntries 0 (scenes props);
          (audios, w') = audioEntries env 0 (scenes props) w
      in if zipGenerates env
         then w'\<lparr>downloads := downloads w' @
                  [ZipDownload ''projeto_video_ia_assets.zip'' (script # images @ audios)]\<rparr>
         else (logError ''Zip failed'' w')\<lparr>alerts := alerts w' @ [AlertZipFailed]\<rparr>)"

definition handleDownloadZip :: "Browser \<Rightarrow> PlayerProps \<Rightarrow> World \<Rightarrow> World" where
  "handleDownloadZip env props w =
     (if length (scenes props) = 0 then w
      else (zipTry env props (w\<lparr>isZipping := True\<rparr>))\<lparr>isZipping := False\<rparr>)"

section \<open>What the drawing calls put on the canvas\<close>

text \<open>
  The 2D context keeps a drawing state; \<open>fillRect\<close>, \<open>fillText\<close> and \<open>drawImage\<close> paint
  with the state current at the call: the fill style and the shadow. \<open>save\<close> pushes the
  state and \<open>restore\<close> pops it. The transform is not followed: the export changes it only
  between the \<open>save\<close> and \<open>restore\<close> around the image.
\<close>

record shadow =
  shadowColor :: string
  shadowBlur :: real
  shadowOffsetX :: real
  shadowOffsetY :: real

record canvas_state =
  csFillStyle :: string
  csFont :: string
  csTextAlign :: string
  csTextBaseline :: string
  csShadow :: shadow

datatype painted =
    PaintedRect string shadow real real real real
  | PaintedText string string shadow real real
  | PaintedImage string shadow real real real real

fun paint :: "canvas_state \<Rightarrow> canvas_state list \<Rightarrow> draw_op list \<Rightarrow> painted list" where
  "paint st stk [] = []"
| "paint st stk (FillStyle c # ops) = paint (st\<lparr>csFillStyle := c\<rparr>) stk ops"
| "paint st stk (FillRect x y w h # ops) =
     PaintedRect (csFillStyle st) (csShadow st) x y w h # paint st stk ops"
| "paint st stk (Save # ops) = paint st (st # stk) ops"
| "paint st stk (Restore # ops) =
     (case stk of [] \<Rightarrow> paint st [] ops | saved # below \<Rightarrow> paint saved below ops)"
| "paint st stk (Translate dx dy # ops) = paint st stk ops"
| "paint st stk (Scale sx sy # ops) = paint st stk ops"
| "paint st stk (DrawImage url x y w h # ops) =
     PaintedImage url (csShadow st) x y w h # paint st stk ops"
| "paint st stk (Font f # ops) = paint (st\<lparr>csFont := f\<rparr>) stk ops"
| "paint st stk (TextAlign a # ops) = paint (st\<lparr>csTextAlign := a\<rparr>) stk ops"
| "paint st stk (TextBaseline b # ops) = paint (st\<lparr>csTextBaseline := b\<rparr>) stk ops"
| "paint st stk (ShadowColor c # ops) =
     paint (st\<lparr>csShadow := (csShadow st)\<lparr>shadowColor := c\<rparr>\<rparr>) stk ops"
| "paint st stk (ShadowBlur b # ops) =
     paint (st\<lparr>csShadow := (csShadow st)\<lparr>shadowBlur := b\<rparr>\<rparr>) stk ops"
| "paint st stk (ShadowOffsetX d # ops) =
     paint (st\<lparr>csShadow := (csShadow st)\<lparr>shadowOffsetX := d\<rparr>\<rparr>) stk ops"
| "paint st stk (ShadowOffsetY d # ops) =
     paint (st\<lparr>csShadow := (csShadow st)\<lparr>shadowOffsetY := d\<rparr>\<rparr>) stk ops"
| "paint st stk (FillText t x y # ops) =
     PaintedText t (csFillStyle st) (csShadow st) x y # paint st stk ops"

text \<open>A context as \<open>getContext\<close> hands it out.\<close>

definition freshCanvas :: canvas_state where
  "freshCanvas =
     \<lparr>csFillStyle = ''#000000'', csFont = ''10px sans-serif'', csTextAlign = ''start'',
      csTextBaseline = ''alphabetic'',
      csShadow = \<lparr>shadowColor = ''rgba(0, 0, 0, 0)'', shadowBlur = 0,
                  shadowOffsetX = 0, shadowOffsetY = 0\<rparr>\<rparr>"

text \<open>The shadow the subtitle block sets up: translucent black, blur 4, offset 2 and 2.\<close>

definition subtitleShadow :: shadow where
  "subtitleShadow =
     \<lparr>shadowColor = ''rgba(0,0,0,0.8)'', shadowBlur = 4, shadowOffsetX = 2, shadowOffsetY = 2\<rparr>"

text \<open>What is painted for line \<open>i\<close> of \<open>n\<close>: for the style \<open>MODERN\<close> a rectangle in
  translucent black, 20 wider than the text and 60 high, and then the text; for the other
  styles the text alone; the text in gold for \<open>CLASSIC\<close> and in white otherwise.\<close>

definition paintedLine ::
  "(string \<Rightarrow> real) \<Rightarrow> SubtitleStyle \<Rightarrow> real \<Rightarrow> real \<Rightarrow> nat \<Rightarrow> nat \<Rightarrow> string \<Rightarrow> painted list" where
  "paintedLine textWidthOf style x y n i line =
     (if style = MODERN
      then [PaintedRect ''rgba(0,0,0,0.6)'' subtitleShadow
              (x - textWidthOf line / 2 - 10) (y - (real n - 1 - real i) * 60 - 48)
              (textWidthOf line + 20) 60]
      else [])
     @ [PaintedText line (if style = CLASSIC then ''#FFD700'' else ''#ffffff'') subtitleShadow
          x (y - (real n - 1 - real i) * 60)]"

section \<open>The export button\<close>

text \<open>
  \<^verbatim>\<open>
  <button onClick={handleExportVideo} disabled={isExporting || scenes.length === 0} ...>
  \<close>
  \<open>handleExportVideo\<close> is a constant local to the component; the button is the only place
  that calls it. An invocation runs its first statements at the call and the rest later, so
  the Player is its state together with the invocations that have started and not yet
  settled, each holding the title it saved. The \<open>disabled\<close> attribute of the button is
  written when React renders: between \<open>setIsExporting(true)\<close> and the next render the button
  still carries the value of the render before. \<open>shownExporting\<close> is the \<open>isExporting\<close> of the
  last render; a render is an event of its own. A disabled button delivers no click.
\<close>

record PlayerUI =
  world :: World
  shownExporting :: bool
  pendingExports :: "string list"

datatype ui_event = ClickExportButton | Render | ExportSettles nat Browser

definition exportButtonDisabled :: "PlayerProps \<Rightarrow> bool \<Rightarrow> bool" where
  "exportButtonDisabled props shown = (shown \<or> length (scenes props) = 0)"

text \<open>A call of \<open>handleExportVideo\<close>, up to its first suspension. The function reads the
  scene list and nothing else before it starts.\<close>

definition handleExportVideoCalled :: "PlayerProps \<Rightarrow> PlayerUI \<Rightarrow> PlayerUI" where
  "handleExportVideoCalled props st =
     (if length (scenes props) = 0 then st
      else st\<lparr>world := exportBegin (world st),
              pendingExports := pendingExports st @ [documentTitle (world st)]\<rparr>)"

text \<open>\<open>ExportSettles k env\<close>: the pending invocation numbered \<open>k\<close> runs to its end in the
  browser \<open>env\<close>.\<close>

definition uiStep :: "PlayerProps \<Rightarrow> PlayerUI \<Rightarrow> ui_event \<Rightarrow> PlayerUI" where
  "uiStep props st ev =
     (case ev of
        ClickExportButton \<Rightarrow>
          if exportButtonDisabled props (shownExporting st) then st
          else handleExportVideoCalled props st
      | Render \<Rightarrow> st\<lparr>shownExporting := isExporting (world st)\<rparr>
      | ExportSettles k env \<Rightarrow>
          if k < length (pendingExports st)
          then st\<lparr>world := exportSettle env props (pendingExports st ! k) (world st),
                  pendingExports := take k (pendingExports st) @ drop (Suc k) (pendingExports st)\<rparr>
          else st)"


text \<open>The Player as mounted: \<open>useState(false)\<close> for the three flags, nothing pending.\<close>

definition initialWorld :: "string \<Rightarrow> World" where
  "initialWorld title =
     \<lparr>isPlaying = False, isExporting = False, isZipping = False, documentTitle = title,
      consoleLog = [], alerts = [], downloads = [],
      openAudioContexts = 0, loopingSources = 0, activeRecorders = 0\<rparr>"

definition initialUI :: "string \<Rightarrow> PlayerUI" where
  "initialUI title = \<lparr>world = initialWorld title, shownExporting = False, pendingExports = []\<rparr>"

section \<open>Examples\<close>

definition exampleScene :: "string \<Rightarrow> string option \<Rightarrow> Scene" where
  "exampleScene narr audio =
     \<lparr>sceneId = ''s'', narration = narr, visualPrompt = ''a prompt'', imageUrl = None,
      audioUrl = audio, audioDuration = None, isGeneratingImage = None,
      isGeneratingAudio = None, sceneError = None\<rparr>"

definition exampleProps :: "Scene list \<Rightarrow> string option \<Rightarrow> SubtitleStyle \<Rightarrow> PlayerProps" where
  "exampleProps ss music style =
     \<lparr>scenes = ss, backgroundMusicUrl = music, aspectRatio = Ratio_16_9, musicVolume = 0.2,
      subtitleStyle = style, showSubtitles = True\<rparr>"

text \<open>A browser in which everything is available, the audio at \<open>''ok.wav''\<close> decodes to
  two seconds and every other audio fails, every frame takes 1000 ms to draw, and timers
  are punctual.\<close>

definition exampleBrowser :: Browser where
  "exampleBrowser =
     \<lparr>canvasPresent = True, contextAvailable = True, audioContextAvailable = True,
      recorderAvailable = True,
      decodeAudio = (\<lambda>url. if url = ''ok.wav'' then Some 2 else None),
      loadImage = (\<lambda>url. Some (1920, 1080)),
      fetchBlob = (\<lambda>url. True), zipGenerates = True,
      measureTextWidth = charWidth10,
      frameCost = (\<lambda>i j. 1000), timerLate = (\<lambda>i j. 0), finishTime = 4000\<rparr>"

section \<open>Notions used to state the properties\<close>

definition isBroken :: "image_state \<Rightarrow> bool" where
  "isBroken img = (case img of Broken url \<Rightarrow> True | _ \<Rightarrow> False)"

text \<open>The pipeline can be set up and no scene's image is broken: nothing but an audio
  load can fail.\<close>

definition pipelineAvailable :: "Browser \<Rightarrow> PlayerProps \<Rightarrow> bool" where
  "pipelineAvailable env props =
     (canvasPresent env \<and> contextAvailable env \<and> audioContextAvailable env
      \<and> recorderAvailable env
      \<and> list_all (\<lambda>scene. \<not> isBroken (loadSceneImage env scene)) (scenes props))"

text \<open>A scene has an audio reference and loading it failed.\<close>

definition sceneAudioFailed :: "Browser \<Rightarrow> Scene \<Rightarrow> bool" where
  "sceneAudioFailed env scene = (truthy (audioUrl scene) \<and> loadSceneAudio env scene = None)"

definition musicFailed :: "Browser \<Rightarrow> PlayerProps \<Rightarrow> bool" where
  "musicFailed env props = (truthy (backgroundMusicUrl props) \<and> loadMusic env props = None)"

text \<open>The warnings the scene loop writes for a list of scenes.\<close>

definition sceneWarnings :: "Browser \<Rightarrow> Scene list \<Rightarrow> console_entry list" where
  "sceneWarnings env ss =
     map (\<lambda>scene. ConsoleWarn ''Failed to load scene audio'') (filter (sceneAudioFailed env) ss)"

text \<open>\<open>r\<close> is what the loop records of \<open>scene\<close> at position \<open>i\<close>.\<close>

definition sceneRendered :: "Browser \<Rightarrow> PlayerProps \<Rightarrow> nat \<Rightarrow> Scene \<Rightarrow> scene_render \<Rightarrow> bool" where
  "sceneRendered env props i scene r =
     (renderIndex r = i
      \<and> renderNarration r = loadSceneAudio env scene
      \<and> renderDurationMs r = sceneDurationMs (loadSceneAudio env scene)
      \<and> renderLoop env props scene (loadSceneImage env scene) i (renderDurationMs r) 0 0 []
          = Inr (renderFrames r, renderEnd r))"

text \<open>The frames \<open>fs\<close> and the final \<open>loopTime\<close> \<open>e\<close> of a loop that starts at \<open>loopTime = t\<close>
  against the duration \<open>d\<close>: every frame is drawn at a time before \<open>d\<close> with the progress
  and zoom of that time, times do not decrease, and the loop ends at the first reading of
  the clock that is not before \<open>d\<close>.\<close>

definition loopOutcome :: "real \<Rightarrow> nat \<Rightarrow> frame list \<Rightarrow> nat \<Rightarrow> bool" where
  "loopOutcome d t fs e =
     (list_all (\<lambda>f. t \<le> frameLoopTime f \<and> real (frameLoopTime f) < d
                  \<and> frameProgress f = real (frameLoopTime f) / d
                  \<and> frameScale f = zoomScale (frameProgress f)) fs
      \<and> sorted (map frameLoopTime fs)
      \<and> t \<le> e \<and> d \<le> real e
      \<and> (if real t < d then fs \<noteq> [] \<and> frameLoopTime (hd fs) = t \<and> frameLoopTime (last fs) < e
          else fs = [] \<and> e = t))"

section \<open>Bulk generation queue (ScenesView, \<open>processQueue\<close>)\<close>

text \<open>
  \<^verbatim>\<open>
  const processQueue = async (tasks: (() => Promise<void>)[], concurrency: number) => {
    let index = 0;
    const activePromises: Promise<void>[] = [];
    const runNext = async (): Promise<void> => {
      if (index >= tasks.length) return;
      const currentIndex = index++;
      const task = tasks[currentIndex];
      try {
        await task();
      } catch (e) {
        console.error("Queue task failed", e);
      }
      await new Promise(r => setTimeout(r, 1500));
      return runNext();
    };
    const limit = Math.min(concurrency, tasks.length);
    for (let i = 0; i < limit; i++) {
      activePromises.push(runNext());
    }
    await Promise.all(activePromises);
  };
  \<close>
  The code runs on one thread: the chains started by the \<open>for\<close> loop advance one at a
  time, each when the promise it awaits settles. A chain (a worker) is awaiting its task
  (\<open>Running\<close> with the task's index), awaiting the 1500 ms timer (\<open>Pausing\<close>), or has
  returned. The queue is the shared \<open>index\<close>, the workers, and a record of the tasks called,
  the tasks settled and the tasks whose failure was logged, in order. There are \<open>n\<close> tasks;
  \<open>succeeds t\<close> tells whether task \<open>t\<close> fulfils or rejects when it settles. \<open>concurrency\<close> is a
  count.
\<close>

datatype worker = Running nat | Pausing | Returned

record queue =
  qIndex :: nat
  qWorkers :: "worker list"
  qStarted :: "nat list"
  qSettled :: "nat list"
  qFailed :: "nat list"

text \<open>\<open>runNext\<close> entered by the worker in slot \<open>k\<close>, up to its first suspension.\<close>

definition runNext :: "nat \<Rightarrow> nat \<Rightarrow> queue \<Rightarrow> queue" where
  "runNext n k q =
     (if qIndex q \<ge> n then q\<lparr>qWorkers := (qWorkers q)[k := Returned]\<rparr>
      else q\<lparr>qIndex := Suc (qIndex q),
             qWorkers := (qWorkers q)[k := Running (qIndex q)],
             qStarted := qStarted q @ [qIndex q]\<rparr>)"

text \<open>\<open>activePromises.push(runNext())\<close>: a new worker, which enters \<open>runNext\<close> at once.\<close>

definition spawnWorker :: "nat \<Rightarrow> queue \<Rightarrow> queue" where
  "spawnWorker n q = runNext n (length (qWorkers q)) (q\<lparr>qWorkers := qWorkers q @ [Pausing]\<rparr>)"

definition emptyQueue :: queue where
  "emptyQueue = \<lparr>qIndex = 0, qWorkers = [], qStarted = [], qSettled = [], qFailed = []\<rparr>"

text \<open>The queue when \<open>processQueue\<close> reaches \<open>await Promise.all(activePromises)\<close>.\<close>

definition processQueue :: "nat \<Rightarrow> nat \<Rightarrow> queue" where
  "processQueue n concurrency =
     foldl (\<lambda>q i. spawnWorker n q) emptyQueue [0 ..< min concurrency n]"

text \<open>What can happen next: the task awaited by worker \<open>k\<close> settles, or the timer awaited by
  worker \<open>k\<close> fires. An event for a worker that is not awaiting it changes nothing.\<close>

datatype queue_event = TaskSettles nat | TimerFires nat

definition queueStep :: "nat \<Rightarrow> (nat \<Rightarrow> bool) \<Rightarrow> queue \<Rightarrow> queue_event \<Rightarrow> queue" where
  "queueStep n succeeds q ev =
     (case ev of
        TaskSettles k \<Rightarrow>
          if k < length (qWorkers q)
          then (case qWorkers q ! k of
                  Running t \<Rightarrow>
                    q\<lparr>qWorkers := (qWorkers q)[k := Pausing],
                      qSettled := qSettled q @ [t],
                      qFailed := (if succeeds t then qFailed q else qFailed q @ [t])\<rparr>
                | _ \<Rightarrow> q)
          else q
      | TimerFires k \<Rightarrow>
          if k < length (qWorkers q) \<and> qWorkers q ! k = Pausing then runNext n k q else q)"

definition queueRun :: "nat \<Rightarrow> (nat \<Rightarrow> bool) \<Rightarrow> queue \<Rightarrow> queue_event list \<Rightarrow> queue" where
  "queueRun n succeeds q evs = foldl (queueStep n succeeds) q evs"

text \<open>The tasks in flight: called and not yet settled.\<close>

definition isRunning :: "worker \<Rightarrow> bool" where
  "isRunning w = (case w of Running t \<Rightarrow> True | _ \<Rightarrow> False)"

definition inFlight :: "queue \<Rightarrow> nat" where
  "inFlight q = length (filter isRunning (qWorkers q))"

text \<open>\<open>Promise.all(activePromises)\<close> resolves: every worker has returned.\<close>

definition queueDone :: "queue \<Rightarrow> bool" where
  "queueDone q = list_all (\<lambda>w. w = Returned) (qWorkers q)"

text \<open>For the proofs: the task a worker awaits, and how far a worker is from returning.\<close>

definition taskOf :: "worker \<Rightarrow> nat multiset" where
  "taskOf w = (case w of Running t \<Rightarrow> {#t#} | _ \<Rightarrow> {#})"

definition workerWeight :: "worker \<Rightarrow> nat" where
  "workerWeight w = (case w of Running t \<Rightarrow> 2 | Pausing \<Rightarrow> 1 | Returned \<Rightarrow> 0)"

definition queueMeasure :: "nat \<Rightarrow> queue \<Rightarrow> nat" where
  "queueMeasure n q = sum_list (map workerWeight (qWorkers q)) + 2 * (n - qIndex q)"

text \<open>What holds of the queue at every moment: the index never passes the number of
  tasks; the tasks called are \<open>0, 1, ...\<close> up to the index, in order; each of them has
  settled or is awaited by exactly one worker; a worker returns only when no task is
  left.\<close>

definition queueInv :: "nat \<Rightarrow> queue \<Rightarrow> bool" where
  "queueInv n q =
     (qIndex q \<le> n
      \<and> qStarted q = [0 ..< qIndex q]
      \<and> mset (qSettled q) + sum_list (map taskOf (qWorkers q)) = mset [0 ..< qIndex q]
      \<and> (Returned \<in> set (qWorkers q) \<longrightarrow> n \<le> qIndex q))"

section \<open>Properties of the word wrap\<close>

lemma split_on_nonempty: "split_on sep s \<noteq> []"
  by (induction s) (auto split: list.splits)

lemma split_space_nonempty: "split_space s \<noteq> []"
  by (simp add: split_space_def split_on_nonempty)

lemma joinWords_append: "joinWords (xs @ ys) = joinWords xs @ joinWords ys"
  by (simp add: joinWords_def)

lemma joinWords_single: "joinWords [w] = w @ '' ''"
  by (simp add: joinWords_def)

lemma wrapLoop_groups:
  "wrapLoop m M n (joinWords cur) (map joinWords groups) ws
     = map joinWords (wrapGroups m M n cur groups ws)"
proof (induction ws arbitrary: n cur groups)
  case Nil
  show ?case by simp
next
  case (Cons w ws)
  have tl: "joinWords cur @ w @ '' '' = joinWords (cur @ [w])"
    by (simp add: joinWords_append joinWords_single)
  show ?case
  proof (cases "m (joinWords (cur @ [w])) > M \<and> n > 0")
    case True
    have "wrapLoop m M n (joinWords cur) (map joinWords groups) (w # ws)
            = wrapLoop m M (Suc n) (joinWords [w]) (map joinWords (groups @ [cur])) ws"
      using True by (simp add: tl Let_def joinWords_single)
    also have "\<dots> = map joinWords (wrapGroups m M (Suc n) [w] (groups @ [cur]) ws)"
      by (rule Cons.IH)
    finally show ?thesis using True by simp
  next
    case False
    have "wrapLoop m M n (joinWords cur) (map joinWords groups) (w # ws)
            = wrapLoop m M (Suc n) (joinWords (cur @ [w])) (map joinWords groups) ws"
      using False by (auto simp add: tl Let_def)
    also have "\<dots> = map joinWords (wrapGroups m M (Suc n) (cur @ [w]) groups ws)"
      by (rule Cons.IH)
    finally show ?thesis using False by auto
  qed
qed

lemma wordWrap_groups: "wordWrap m M text = map joinWords (wordGroups m M text)"
  using wrapLoop_groups [of m M 0 "[]" "[]" "split_space text"]
  by (simp add: wordWrap_def wordGroups_def joinWords_def)

lemma wrapGroups_concat:
  "concat (wrapGroups m M n cur groups ws) = concat groups @ cur @ ws"
  by (induction ws arbitrary: n cur groups) auto

lemma wrapGroups_nonempty:
  assumes "\<forall>g \<in> set groups. g \<noteq> []" and "n > 0 \<longrightarrow> cur \<noteq> []" and "n = 0 \<longrightarrow> ws \<noteq> []"
  shows "\<forall>g \<in> set (wrapGroups m M n cur groups ws). g \<noteq> []"
  using assms
proof (induction ws arbitrary: n cur groups)
  case Nil
  then show ?case by auto
next
  case (Cons w ws)
  show ?case
  proof (cases "m (joinWords (cur @ [w])) > M \<and> n > 0")
    case True
    have "\<forall>g \<in> set (wrapGroups m M (Suc n) [w] (groups @ [cur]) ws). g \<noteq> []"
      by (rule Cons.IH) (use Cons.prems True in auto)
    then show ?thesis using True by simp
  next
    case False
    have "\<forall>g \<in> set (wrapGroups m M (Suc n) (cur @ [w]) groups ws). g \<noteq> []"
      by (rule Cons.IH) (use Cons.prems in auto)
    then show ?thesis using False by auto
  qed
qed

lemma prefixesFit_short: "length g \<le> 1 \<Longrightarrow> prefixesFit m M g"
  by (auto simp: prefixesFit_def)

lemma prefixesFit_snoc:
  assumes "prefixesFit m M g" and "m (joinWords (g @ [w])) \<le> M"
  shows "prefixesFit m M (g @ [w])"
  unfolding prefixesFit_def
proof
  fix k assume k: "k \<in> {2 ..< Suc (length (g @ [w]))}"
  show "m (joinWords (take k (g @ [w]))) \<le> M"
  proof (cases "k \<le> length g")
    case True
    then have "take k (g @ [w]) = take k g" by simp
    moreover have "k \<in> {2 ..< Suc (length g)}" using k True by auto
    ultimately show ?thesis using assms(1) by (simp add: prefixesFit_def)
  next
    case False
    then have "take k (g @ [w]) = g @ [w]" using k by simp
    then show ?thesis using assms(2) by simp
  qed
qed

lemma wrapGroups_prefixesFit:
  assumes "\<forall>g \<in> set groups. prefixesFit m M g" and "prefixesFit m M cur" and "n = 0 \<longrightarrow> cur = []"
  shows "\<forall>g \<in> set (wrapGroups m M n cur groups ws). prefixesFit m M g"
  using assms
proof (induction ws arbitrary: n cur groups)
  case Nil
  then show ?case by auto
next
  case (Cons w ws)
  show ?case
  proof (cases "m (joinWords (cur @ [w])) > M \<and> n > 0")
    case True
    have "\<forall>g \<in> set (wrapGroups m M (Suc n) [w] (groups @ [cur]) ws). prefixesFit m M g"
      by (rule Cons.IH) (use Cons.prems in \<open>auto simp: prefixesFit_short\<close>)
    then show ?thesis using True by simp
  next
    case False
    have fit: "prefixesFit m M (cur @ [w])"
    proof (cases "n = 0")
      case True
      then show ?thesis using Cons.prems(3) by (simp add: prefixesFit_short)
    next
      case False
      with \<open>\<not> (m (joinWords (cur @ [w])) > M \<and> n > 0)\<close>
      have "m (joinWords (cur @ [w])) \<le> M" by auto
      then show ?thesis using Cons.prems(2) by (rule prefixesFit_snoc [rotated])
    qed
    have "\<forall>g \<in> set (wrapGroups m M (Suc n) (cur @ [w]) groups ws). prefixesFit m M g"
      by (rule Cons.IH) (use Cons.prems fit in auto)
    then show ?thesis using False by auto
  qed
qed

lemma breaksForced_snoc_new:
  assumes "breaksForced m M (gs @ [g])" and "m (joinWords (g @ [w])) > M"
  shows "breaksForced m M (gs @ [g, [w]])"
  using assms
proof (induction gs)
  case Nil
  then show ?case by simp
next
  case (Cons a gs)
  then show ?case by (cases gs) simp_all
qed

lemma breaksForced_snoc_grow:
  assumes "breaksForced m M (gs @ [g])" and "g \<noteq> []"
  shows "breaksForced m M (gs @ [g @ [w]])"
  using assms
proof (induction gs)
  case Nil
  then show ?case by simp
next
  case (Cons a gs)
  then show ?case by (cases gs) simp_all
qed

lemma wrapGroups_breaksForced:
  assumes "breaksForced m M (groups @ [cur])" and "n > 0 \<longrightarrow> cur \<noteq> []" and "n = 0 \<longrightarrow> groups = []"
  shows "breaksForced m M (wrapGroups m M n cur groups ws)"
  using assms
proof (induction ws arbitrary: n cur groups)
  case Nil
  then show ?case by simp
next
  case (Cons w ws)
  show ?case
  proof (cases "m (joinWords (cur @ [w])) > M \<and> n > 0")
    case True
    have "breaksForced m M (wrapGroups m M (Suc n) [w] (groups @ [cur]) ws)"
      by (rule Cons.IH) (use Cons.prems True breaksForced_snoc_new [of m M groups cur w] in auto)
    then show ?thesis using True by simp
  next
    case False
    have grow: "breaksForced m M (groups @ [cur @ [w]])"
    proof (cases "n = 0")
      case True
      then show ?thesis using Cons.prems(3) by simp
    next
      case False
      then show ?thesis using Cons.prems by (auto intro: breaksForced_snoc_grow)
    qed
    have "breaksForced m M (wrapGroups m M (Suc n) (cur @ [w]) groups ws)"
      by (rule Cons.IH) (use Cons.prems grow in auto)
    then show ?thesis using False by auto
  qed
qed

lemma wordGroups_concat: "concat (wordGroups m M text) = split_space text"
  by (simp add: wordGroups_def wrapGroups_concat)

lemma wordGroups_nonempty: "\<forall>g \<in> set (wordGroups m M text). g \<noteq> []"
  unfolding wordGroups_def
  by (rule wrapGroups_nonempty) (simp_all add: split_space_nonempty)

lemma wordGroups_prefixesFit: "\<forall>g \<in> set (wordGroups m M text). prefixesFit m M g"
  unfolding wordGroups_def
  by (rule wrapGroups_prefixesFit) (simp_all add: prefixesFit_short)

lemma wordGroups_breaksForced: "breaksForced m M (wordGroups m M text)"
  unfolding wordGroups_def
  by (rule wrapGroups_breaksForced) simp_all

lemma group_fits_or_single:
  assumes "g \<noteq> []" and "prefixesFit m M g"
  shows "m (joinWords g) \<le> M \<or> (\<exists>w. g = [w])"
proof (cases "length g \<ge> 2")
  case True
  then have "length g \<in> {2 ..< Suc (length g)}" by simp
  with assms(2) have "m (joinWords (take (length g) g)) \<le> M"
    unfolding prefixesFit_def by blast
  then show ?thesis by simp
next
  case False
  with assms(1) have "\<exists>w. g = [w]" by (cases g) (auto simp: not_le less_Suc_eq)
  then show ?thesis by simp
qed

text \<open>
  Claim C2, as the code has it. Word wrap of a narration with measure \<open>measureText\<close> and
  maximum width \<open>maxWidth\<close>: the lines are the words of \<open>text.split(' ')\<close> in order, each
  followed by a space, none dropped and no line empty of words; the width of a line is
  measured as the code measures it, with the space after its last word, and a line whose
  measured width exceeds \<open>maxWidth\<close> consists of a single word and its space, and it is
  emitted; a word goes on the current line whenever the line with it still fits or the line
  has no word yet, and a new line is begun only by a word that did not fit on the line
  before it.
\<close>

theorem wordWrap_greedy:
  "wordWrap measureText maxWidth text = map joinWords (wordGroups measureText maxWidth text)
   \<and> concat (wordGroups measureText maxWidth text) = split_space text
   \<and> (\<forall>g \<in> set (wordGroups measureText maxWidth text). g \<noteq> [])
   \<and> (\<forall>l \<in> set (wordWrap measureText maxWidth text).
         measureText l \<le> maxWidth \<or> (\<exists>w \<in> set (split_space text). l = w @ '' ''))
   \<and> (\<forall>g \<in> set (wordGroups measureText maxWidth text). prefixesFit measureText maxWidth g)
   \<and> breaksForced measureText maxWidth (wordGroups measureText maxWidth text)"
proof -
  let ?gs = "wordGroups measureText maxWidth text"
  have lines: "wordWrap measureText maxWidth text = map joinWords ?gs"
    by (rule wordWrap_groups)
  have width: "\<forall>l \<in> set (wordWrap measureText maxWidth text).
         measureText l \<le> maxWidth \<or> (\<exists>w \<in> set (split_space text). l = w @ '' '')"
  proof
    fix l assume "l \<in> set (wordWrap measureText maxWidth text)"
    then obtain g where g: "g \<in> set ?gs" and l: "l = joinWords g"
      unfolding lines by auto
    have "g \<noteq> []" using g wordGroups_nonempty by blast
    moreover have "prefixesFit measureText maxWidth g" using g wordGroups_prefixesFit by blast
    ultimately have "measureText (joinWords g) \<le> maxWidth \<or> (\<exists>w. g = [w])"
      by (rule group_fits_or_single)
    then show "measureText l \<le> maxWidth \<or> (\<exists>w \<in> set (split_space text). l = w @ '' '')"
    proof
      assume "measureText (joinWords g) \<le> maxWidth"
      then show ?thesis by (simp add: l)
    next
      assume "\<exists>w. g = [w]"
      then obtain w where w: "g = [w]" by blast
      then have "w \<in> set (concat ?gs)" using g by (auto intro: bexI [of _ "[w]"])
      then have "w \<in> set (split_space text)" by (simp add: wordGroups_concat)
      then show ?thesis using w l by (auto simp: joinWords_single)
    qed
  qed
  show ?thesis
    using lines width wordGroups_concat [of measureText maxWidth "text"]
      wordGroups_nonempty [of measureText maxWidth "text"]
      wordGroups_prefixesFit [of measureText maxWidth "text"]
      wordGroups_breaksForced [of measureText maxWidth "text"]
    by blast
qed

theorem wordWrap_greedy_witness:
  "wordWrap charWidth10 80 ''ab cd efghijklmn o'' = [''ab cd '', ''efghijklmn '', ''o '']
   \<and> charWidth10 ''efghijklmn '' > 80
   \<and> concat (wordGroups charWidth10 80 ''ab cd efghijklmn o'') = [''ab'', ''cd'', ''efghijklmn'', ''o'']
   \<and> list_all (\<lambda>l. charWidth10 l \<le> 80 \<or> (\<exists>w \<in> set (split_space ''ab cd efghijklmn o''). l = w @ '' ''))
         (wordWrap charWidth10 80 ''ab cd efghijklmn o'')
   \<and> list_all (\<lambda>g. g \<noteq> [] \<and> prefixesFit charWidth10 80 g)
         (wordGroups charWidth10 80 ''ab cd efghijklmn o'')
   \<and> breaksForced charWidth10 80 (wordGroups charWidth10 80 ''ab cd efghijklmn o'')"
proof -
  have run: "wordWrap charWidth10 80 ''ab cd efghijklmn o'' = [''ab cd '', ''efghijklmn '', ''o '']"
    by (simp add: wordWrap_def split_space_def charWidth10_def)
  have wide: "charWidth10 ''efghijklmn '' > 80"
    by (simp add: charWidth10_def)
  have words: "split_space ''ab cd efghijklmn o'' = [''ab'', ''cd'', ''efghijklmn'', ''o'']"
    by (simp add: split_space_def)
  show ?thesis
    unfolding list_all_iff
    using run wide words wordWrap_greedy [of charWidth10 80 "''ab cd efghijklmn o''"] by metis
qed

text \<open>
  The claim as the specification words it lets a line exceed the maximum width only when
  it consists of a single word wider than the maximum. With every character ten pixels wide
  and \<open>maxWidth = 80\<close>, the narration "abcdefgh i" is wrapped into two lines; the first,
  "abcdefgh" with its space, measures 90 and exceeds the maximum, while its only word
  measures 80 and does not.
\<close>

theorem wordWrap_trailing_space_counterexample:
  "wordWrap charWidth10 80 ''abcdefgh i'' = [''abcdefgh '', ''i '']
   \<and> split_space ''abcdefgh i'' = [''abcdefgh'', ''i'']
   \<and> charWidth10 ''abcdefgh '' > 80
   \<and> charWidth10 ''abcdefgh'' \<le> 80"
  by (simp add: wordWrap_def split_space_def charWidth10_def)

section \<open>Properties of the retry wrapper\<close>

lemmas retryLoop_unfold = retryLoop.simps

declare retryLoop.simps [simp del]

lemma rateLimitedFrom_head:
  assumes "rateLimitedFrom operation i k" and "i < k"
  obtains e where "operation i = Inl e" and "isRateLimit e"
proof -
  from assms have "case operation i of Inl e \<Rightarrow> isRateLimit e | Inr v \<Rightarrow> False"
    unfolding rateLimitedFrom_def by (auto dest!: bspec [where x = i])
  then show thesis using that by (cases "operation i") auto
qed

lemma retryLoop_succeeds:
  assumes "rateLimitedFrom operation i k" and "operation k = Inr v" and "k < maxRetries" and "i \<le> k"
  shows "outcome (retryLoop operation random maxRetries i delay ws) = Inr v
         \<and> attempts (retryLoop operation random maxRetries i delay ws) = Suc k"
  using assms
proof (induction "k - i" arbitrary: i delay ws)
  case 0
  then have "i = k" by simp
  then show ?case using "0.prems" by (simp add: retryLoop_unfold [of _ _ _ k])
next
  case (Suc d)
  then have lt: "i < k" by simp
  with Suc.prems(1) obtain e where e: "operation i = Inl e" "isRateLimit e"
    by (rule rateLimitedFrom_head)
  have notlast: "\<not> (int i = int maxRetries - 1)" using lt Suc.prems(3) by auto
  have rest: "rateLimitedFrom operation (Suc i) k"
    using Suc.prems(1) unfolding rateLimitedFrom_def by auto
  have step: "retryLoop operation random maxRetries i delay ws
          = retryLoop operation random maxRetries (Suc i) (delay * 1.5) (ws @ [delay + random i * 1000])"
    using e notlast lt Suc.prems(3) by (subst retryLoop_unfold) simp
  have "d = k - Suc i" using Suc.hyps(2) by simp
  from Suc.hyps(1) [OF this rest Suc.prems(2) Suc.prems(3)] lt
  show ?case unfolding step by simp
qed

lemma retryLoop_exhausts:
  assumes "rateLimitedFrom operation i maxRetries" and "i < maxRetries"
  shows "outcome (retryLoop operation random maxRetries i delay ws) = operation (maxRetries - 1)
         \<and> attempts (retryLoop operation random maxRetries i delay ws) = maxRetries"
  using assms
proof (induction "maxRetries - i" arbitrary: i delay ws)
  case 0
  then show ?case by simp
next
  case (Suc d)
  from Suc.prems(1) Suc.prems(2) obtain e where e: "operation i = Inl e" "isRateLimit e"
    by (rule rateLimitedFrom_head)
  show ?case
  proof (cases "Suc i = maxRetries")
    case True
    then have "int i = int maxRetries - 1" by auto
    moreover have "maxRetries - 1 = i" using True by simp
    ultimately show ?thesis using e Suc.prems(2) True
      by (subst (1 2) retryLoop_unfold) simp
  next
    case False
    then have lt: "Suc i < maxRetries" using Suc.prems(2) by simp
    have notlast: "\<not> (int i = int maxRetries - 1)" using lt by auto
    have rest: "rateLimitedFrom operation (Suc i) maxRetries"
      using Suc.prems(1) unfolding rateLimitedFrom_def by auto
    have step: "retryLoop operation random maxRetries i delay ws
          = retryLoop operation random maxRetries (Suc i) (delay * 1.5) (ws @ [delay + random i * 1000])"
      using e notlast Suc.prems(2) by (subst retryLoop_unfold) simp
    have "d = maxRetries - Suc i" using Suc.hyps(2) by simp
    from Suc.hyps(1) [OF this rest lt] show ?thesis unfolding step .
  qed
qed

lemma retryLoop_rethrows:
  assumes "rateLimitedFrom operation i k" and "operation k = Inl e" and "\<not> isRateLimit e"
    and "k < maxRetries" and "i \<le> k"
  shows "outcome (retryLoop operation random maxRetries i delay ws) = Inl e
         \<and> attempts (retryLoop operation random maxRetries i delay ws) = Suc k"
  using assms
proof (induction "k - i" arbitrary: i delay ws)
  case 0
  then have "i = k" by simp
  then show ?case using "0.prems" by (simp add: retryLoop_unfold [of _ _ _ k])
next
  case (Suc d)
  then have lt: "i < k" by simp
  with Suc.prems(1) obtain e' where e: "operation i = Inl e'" "isRateLimit e'"
    by (rule rateLimitedFrom_head)
  have notlast: "\<not> (int i = int maxRetries - 1)" using lt Suc.prems(4) by auto
  have rest: "rateLimitedFrom operation (Suc i) k"
    using Suc.prems(1) unfolding rateLimitedFrom_def by auto
  have step: "retryLoop operation random maxRetries i delay ws
          = retryLoop operation random maxRetries (Suc i) (delay * 1.5) (ws @ [delay + random i * 1000])"
    using e notlast lt Suc.prems(4) by (subst retryLoop_unfold) simp
  have "d = k - Suc i" using Suc.hyps(2) by simp
  from Suc.hyps(1) [OF this rest Suc.prems(2) Suc.prems(3) Suc.prems(4)] lt
  show ?case unfolding step by simp
qed

lemma rateLimitedFrom_mono: "rateLimitedFrom operation i k \<Longrightarrow> k' \<le> k \<Longrightarrow> rateLimitedFrom operation i k'"
  unfolding rateLimitedFrom_def by auto

text \<open>
  Claim C4. With a retry budget of at least one attempt (\<open>0 < maxRetries\<close>) and an
  operation whose calls \<open>0 .. k - 1\<close> throw rate-limit errors: if call \<open>k\<close> returns \<open>v\<close> and
  \<open>k < maxRetries\<close>, the wrapper returns \<open>v\<close> after \<open>k + 1\<close> calls; if \<open>k \<ge> maxRetries\<close>, it
  throws the rate-limit error of the last call it made, after exactly \<open>maxRetries\<close> calls; if
  call \<open>k < maxRetries\<close> throws an error that is not a rate-limit error, the wrapper throws
  that error at once, after \<open>k + 1\<close> calls.
\<close>

theorem retryOperation_policy:
  assumes "0 < maxRetries" and "rateLimitedFrom operation 0 k"
  shows "(operation k = Inr v \<and> k < maxRetries \<longrightarrow>
            outcome (retryOperation operation random maxRetries initialDelay) = Inr v
            \<and> attempts (retryOperation operation random maxRetries initialDelay) = Suc k)
       \<and> (maxRetries \<le> k \<longrightarrow>
            outcome (retryOperation operation random maxRetries initialDelay) = operation (maxRetries - 1)
            \<and> (\<exists>e. operation (maxRetries - 1) = Inl e \<and> isRateLimit e)
            \<and> attempts (retryOperation operation random maxRetries initialDelay) = maxRetries)
       \<and> (operation k = Inl err \<and> \<not> isRateLimit err \<and> k < maxRetries \<longrightarrow>
            outcome (retryOperation operation random maxRetries initialDelay) = Inl err
            \<and> attempts (retryOperation operation random maxRetries initialDelay) = Suc k)"
proof (intro conjI impI)
  assume h: "operation k = Inr v \<and> k < maxRetries"
  with assms(2) retryLoop_succeeds [of operation 0 k v maxRetries random initialDelay "[]"]
  show "outcome (retryOperation operation random maxRetries initialDelay) = Inr v"
    and "attempts (retryOperation operation random maxRetries initialDelay) = Suc k"
    by (simp_all add: retryOperation_def)
next
  assume h: "maxRetries \<le> k"
  with assms(2) have all: "rateLimitedFrom operation 0 maxRetries"
    by (rule rateLimitedFrom_mono)
  from retryLoop_exhausts [OF all assms(1), of random initialDelay "[]"]
  show "outcome (retryOperation operation random maxRetries initialDelay) = operation (maxRetries - 1)"
    and "attempts (retryOperation operation random maxRetries initialDelay) = maxRetries"
    by (simp_all add: retryOperation_def)
  have "rateLimitedFrom operation (maxRetries - 1) maxRetries"
    using all unfolding rateLimitedFrom_def by auto
  moreover have "maxRetries - 1 < maxRetries" using assms(1) by simp
  ultimately show "\<exists>e. operation (maxRetries - 1) = Inl e \<and> isRateLimit e"
    by (rule rateLimitedFrom_head) blast
next
  assume h: "operation k = Inl err \<and> \<not> isRateLimit err \<and> k < maxRetries"
  with assms(2) retryLoop_rethrows [of operation 0 k err maxRetries random initialDelay "[]"]
  show "outcome (retryOperation operation random maxRetries initialDelay) = Inl err"
    and "attempts (retryOperation operation random maxRetries initialDelay) = Suc k"
    by (simp_all add: retryOperation_def)
qed

lemma isRateLimit_quotaError: "isRateLimit quotaError"
  by (simp add: isRateLimit_def quotaError_def statusOf_def)

lemma not_isRateLimit_notFoundError: "\<not> isRateLimit notFoundError"
  by (simp add: isRateLimit_def notFoundError_def statusOf_def)

lemma rateLimitedFrom_failsThenSucceeds:
  "k' \<le> k \<Longrightarrow> rateLimitedFrom (failsThenSucceeds quotaError k v) 0 k'"
  by (simp add: rateLimitedFrom_def failsThenSucceeds_def isRateLimit_quotaError)

theorem retryOperation_policy_witness:
  "(0::nat) < 3
   \<and> rateLimitedFrom (failsThenSucceeds quotaError 2 (7::nat)) 0 2
   \<and> failsThenSucceeds quotaError 2 (7::nat) 2 = Inr 7 \<and> (2::nat) < 3
   \<and> outcome (retryOperation (failsThenSucceeds quotaError 2 (7::nat)) (\<lambda>i. 0) 3 2000) = Inr 7
   \<and> attempts (retryOperation (failsThenSucceeds quotaError 2 (7::nat)) (\<lambda>i. 0) 3 2000) = 3
   \<and> rateLimitedFrom (failsThenSucceeds quotaError 4 (7::nat)) 0 4 \<and> (3::nat) \<le> 4
   \<and> outcome (retryOperation (failsThenSucceeds quotaError 4 (7::nat)) (\<lambda>i. 0) 3 2000) = Inl quotaError
   \<and> attempts (retryOperation (failsThenSucceeds quotaError 4 (7::nat)) (\<lambda>i. 0) 3 2000) = 3
   \<and> rateLimitedFrom (failsThenThrows quotaError 1 notFoundError) 0 1
   \<and> failsThenThrows quotaError 1 notFoundError 1 = Inl notFoundError
   \<and> \<not> isRateLimit notFoundError \<and> (1::nat) < 3
   \<and> outcome (retryOperation (failsThenThrows quotaError 1 notFoundError) (\<lambda>i. 0) 3 2000) = Inl notFoundError
   \<and> attempts (retryOperation (failsThenThrows quotaError 1 notFoundError) (\<lambda>i. 0) 3 2000) = 2"
proof -
  have pos: "(0::nat) < 3" by simp
  have r2: "rateLimitedFrom (failsThenSucceeds quotaError 2 (7::nat)) 0 2"
    by (rule rateLimitedFrom_failsThenSucceeds) simp
  have r4: "rateLimitedFrom (failsThenSucceeds quotaError 4 (7::nat)) 0 4"
    by (rule rateLimitedFrom_failsThenSucceeds) simp
  have r1: "rateLimitedFrom (failsThenThrows quotaError 1 notFoundError) 0 1"
    by (simp add: rateLimitedFrom_def failsThenThrows_def isRateLimit_quotaError)
  have t1: "failsThenThrows quotaError 1 notFoundError 1 = Inl notFoundError"
    by (simp add: failsThenThrows_def)
  have s2: "failsThenSucceeds quotaError 2 (7::nat) 2 = Inr 7"
    by (simp add: failsThenSucceeds_def)
  have l4: "failsThenSucceeds quotaError 4 (7::nat) (3 - 1) = Inl quotaError"
    by (simp add: failsThenSucceeds_def)
  from retryOperation_policy [OF pos r2, of 7 "\<lambda>i. 0" 2000] s2
  have a: "outcome (retryOperation (failsThenSucceeds quotaError 2 (7::nat)) (\<lambda>i. 0) 3 2000) = Inr 7
     \<and> attempts (retryOperation (failsThenSucceeds quotaError 2 (7::nat)) (\<lambda>i. 0) 3 2000) = 3"
    by simp
  from retryOperation_policy [OF pos r4, of 7 "\<lambda>i. 0" 2000] l4
  have b: "outcome (retryOperation (failsThenSucceeds quotaError 4 (7::nat)) (\<lambda>i. 0) 3 2000) = Inl quotaError
     \<and> attempts (retryOperation (failsThenSucceeds quotaError 4 (7::nat)) (\<lambda>i. 0) 3 2000) = 3"
    by simp
  from retryOperation_policy [OF pos r1, of 0 "\<lambda>i. 0" 2000 notFoundError] t1
    not_isRateLimit_notFoundError
  have c: "outcome (retryOperation (failsThenThrows quotaError 1 notFoundError) (\<lambda>i. 0) 3 2000) = Inl notFoundError
     \<and> attempts (retryOperation (failsThenThrows quotaError 1 notFoundError) (\<lambda>i. 0) 3 2000) = 2"
    by simp
  show ?thesis
    using pos r2 r4 r1 s2 t1 a b c not_isRateLimit_notFoundError by simp
qed

text \<open>
  No call site passes a budget of 0 (the calls pass 3 and 5, the default is 5). With
  \<open>maxRetries = 0\<close> there is no attempt: the loop body never runs and the wrapper throws its
  own error "Operation failed after retries".
\<close>

lemma retryOperation_zero_budget:
  "outcome (retryOperation operation random 0 initialDelay) = Inl failedAfterRetries
   \<and> attempts (retryOperation operation random 0 initialDelay) = 0"
  by (simp add: retryOperation_def retryLoop_unfold)

section \<open>Proof setup\<close>

text \<open>The defining equations of the animation loop and of the decimal printer are recursive
  under an \<open>if\<close>; they are applied by hand.\<close>

lemmas renderLoop_unfold = renderLoop.simps

declare renderLoop.simps [simp del]

lemmas natToString_unfold = natToString.simps

declare natToString.simps [simp del]

section \<open>Empty scene list\<close>

text \<open>
  Claim C10. With an empty scene list, \<open>handleExportVideo\<close> and \<open>handleDownloadZip\<close> return
  at their first statement: flags, title, console, alerts, downloads and resources are all
  as before (no recorder started, no audio context made, no file produced); the same holds
  for a call that is left pending at its first suspension.
\<close>

theorem empty_scenes_no_effect:
  assumes "scenes props = []"
  shows "handleExportVideo env props w = w
       \<and> handleDownloadZip env props w = w
       \<and> handleExportVideoCalled props st = st"
  using assms by (simp add: handleExportVideo_def handleDownloadZip_def handleExportVideoCalled_def)

theorem empty_scenes_no_effect_witness:
  "scenes (exampleProps [] (Some ''ok.wav'') MODERN) = []
   \<and> handleExportVideo exampleBrowser (exampleProps [] (Some ''ok.wav'') MODERN) (initialWorld ''VideoCreator'')
       = initialWorld ''VideoCreator''
   \<and> handleDownloadZip exampleBrowser (exampleProps [] (Some ''ok.wav'') MODERN) (initialWorld ''VideoCreator'')
       = initialWorld ''VideoCreator''
   \<and> handleExportVideoCalled (exampleProps [] (Some ''ok.wav'') MODERN) (initialUI ''VideoCreator'')
       = initialUI ''VideoCreator''"
proof -
  have e: "scenes (exampleProps [] (Some ''ok.wav'') MODERN) = []"
    by (simp add: exampleProps_def)
  from empty_scenes_no_effect [OF e] e show ?thesis by blast
qed

section \<open>Re-entrancy of the export\<close>

text \<open>Once a render has shown the busy flag, the button is disabled and a click changes
  nothing.\<close>

lemma click_ignored_when_shown_busy:
  "shownExporting st \<Longrightarrow> uiStep props st ClickExportButton = st"
  by (simp add: uiStep_def exportButtonDisabled_def)

text \<open>A call of the handler itself does not look at the flag: whenever there are scenes,
  it starts an invocation.\<close>

lemma handleExportVideoCalled_starts:
  "length (scenes props) \<noteq> 0 \<Longrightarrow>
     pendingExports (handleExportVideoCalled props st) = pendingExports st @ [documentTitle (world st)]"
  by (simp add: handleExportVideoCalled_def)


section \<open>Failure of an export\<close>

text \<open>What holds on every path through the \<open>catch\<close> block: nothing is downloaded, the
  failure is logged and shown, and \<open>finally\<close> resets the flag and the title.\<close>

lemma exportFailed_fields:
  "downloads (exportFailed w) = downloads w
   \<and> alerts (exportFailed w) = alerts w @ [AlertExportFailed]
   \<and> consoleLog (exportFailed w) = consoleLog w @ [ConsoleError ''Export failed'']
   \<and> openAudioContexts (exportFailed w) = openAudioContexts w
   \<and> loopingSources (exportFailed w) = loopingSources w
   \<and> activeRecorders (exportFailed w) = activeRecorders w"
  by (simp add: exportFailed_def logError_def)

text \<open>
  Claim C6, at a failing input: one scene, background music that loads, and a browser in
  which the recorder cannot be created (\<open>new MediaRecorder\<close> throws for the fixed mime
  type). The export is aborted, reports the failure and produces no download, and the flag
  and title are reset; but the audio context created before the recorder is still open
  and the music source started before it is still looping: the calls that stop and close
  them stand at the end of the \<open>try\<close> block and are not reached.
\<close>

theorem export_failure_keeps_audio_graph:
  "handleExportVideo (exampleBrowser\<lparr>recorderAvailable := False\<rparr>)
     (exampleProps [exampleScene ''Hello world'' None] (Some ''ok.wav'') MODERN)
     (initialWorld ''VideoCreator'')
   = \<lparr>isPlaying = False, isExporting = False, isZipping = False,
      documentTitle = ''VideoCreator'',
      consoleLog = [ConsoleError ''Export failed''], alerts = [AlertExportFailed],
      downloads = [], openAudioContexts = 1, loopingSources = 1, activeRecorders = 0\<rparr>"
  by (simp add: handleExportVideo_def exportSettle_def exportBegin_def exportTry_def
      exportFailed_def logError_def loadMusic_def truthy_def exampleBrowser_def
      exampleProps_def initialWorld_def Let_def)

text \<open>A second failing input: the only scene has an image that does not load. Drawing it
  throws inside the scene loop, after the recorder was started: the recorder is never
  stopped and the audio context never closed.\<close>

lemma export_broken_image_keeps_recorder:
  "handleExportVideo (exampleBrowser\<lparr>loadImage := (\<lambda>url. None)\<rparr>)
     (exampleProps [(exampleScene ''Hello world'' None)\<lparr>imageUrl := Some ''data:image/jpeg;base64,xx''\<rparr>]
        None MODERN)
     (initialWorld ''VideoCreator'')
   = \<lparr>isPlaying = False, isExporting = False, isZipping = False,
      documentTitle = ''VideoCreator'',
      consoleLog = [ConsoleError ''Export failed''], alerts = [AlertExportFailed],
      downloads = [], openAudioContexts = 1, loopingSources = 0, activeRecorders = 1\<rparr>"
  by (simp add: handleExportVideo_def exportSettle_def exportBegin_def exportTry_def
      exportFailed_def logError_def loadMusic_def truthy_def exampleBrowser_def
      exampleProps_def exampleScene_def initialWorld_def Let_def
      loadSceneImage_def loadSceneAudio_def sceneDurationMs_def
      renderLoop_unfold [of _ _ _ _ _ _ 0 0] drawFrame_def drawImageOps_def)

section \<open>The animation loop and the scene loop\<close>

lemma frameAdvance_ge: "33 \<le> frameAdvance env i j"
proof (cases "frameCost env i j \<le> 33")
  case True
  then have "real (frameCost env i j) \<le> 33" by simp
  then have "frameDelay (frameCost env i j) = 1000 / 30 - real (frameCost env i j)"
    by (simp add: frameDelay_def frameInterval_def)
  moreover have "\<lfloor>1000 / 30 - real (frameCost env i j)\<rfloor> = 33 - int (frameCost env i j)"
    by (rule floor_unique) simp_all
  ultimately show ?thesis using True by (simp add: frameAdvance_def)
next
  case False
  then show ?thesis by (simp add: frameAdvance_def)
qed

lemma drawFrame_not_broken:
  assumes "\<not> isBroken img"
  obtains ops where "drawFrame env props scene img s = Inr ops"
  using assms
  by (cases img) (auto simp: drawFrame_def drawImageOps_def isBroken_def Let_def)

lemma renderLoop_outcome:
  assumes "\<not> isBroken img"
  shows "\<exists>fs e. renderLoop env props scene img i d j t acc = Inr (acc @ fs, e) \<and> loopOutcome d t fs e"
  using assms
proof (induction env props scene img i d j t acc rule: renderLoop.induct)
  case (1 env props scene img i d j t acc)
  show ?case
  proof (cases "real t < d")
    case False
    then have "renderLoop env props scene img i d j t acc = Inr (acc @ [], t)"
      by (subst renderLoop_unfold) simp
    moreover have "loopOutcome d t [] t" using False by (simp add: loopOutcome_def)
    ultimately show ?thesis by blast
  next
    case True
    let ?p = "real t / d"
    obtain ops where ops: "drawFrame env props scene img (zoomScale ?p) = Inr ops"
      using "1.prems" by (rule drawFrame_not_broken)
    let ?f = "\<lparr>frameLoopTime = t, frameProgress = ?p, frameScale = zoomScale ?p,
               frameOps = ops, frameWait = frameDelay (frameCost env i j)\<rparr>"
    let ?t' = "t + frameAdvance env i j"
    from "1.IH" [OF True refl refl ops "1.prems"]
    obtain fs e where run: "renderLoop env props scene img i d (Suc j) ?t' (acc @ [?f]) = Inr ((acc @ [?f]) @ fs, e)"
      and out: "loopOutcome d ?t' fs e"
      by blast
    have step: "renderLoop env props scene img i d j t acc = Inr (acc @ (?f # fs), e)"
      using True ops run by (subst renderLoop_unfold) (simp add: Let_def)
    have adv: "t < ?t'" using frameAdvance_ge [of env i j] by simp
    have all: "list_all (\<lambda>f. t \<le> frameLoopTime f \<and> real (frameLoopTime f) < d
                  \<and> frameProgress f = real (frameLoopTime f) / d
                  \<and> frameScale f = zoomScale (frameProgress f)) (?f # fs)"
      using out True adv unfolding loopOutcome_def list_all_iff by auto
    have srt: "sorted (map frameLoopTime (?f # fs))"
      using out adv unfolding loopOutcome_def list_all_iff by auto
    have ends: "t \<le> e \<and> d \<le> real e" using out adv unfolding loopOutcome_def by auto
    have lst: "frameLoopTime (last (?f # fs)) < e"
      using out adv unfolding loopOutcome_def by (auto split: if_splits)
    have "loopOutcome d t (?f # fs) e"
      unfolding loopOutcome_def using all srt ends lst True by simp
    with step show ?thesis by blast
  qed
qed

lemma renderLoop_outcome_unique:
  assumes "\<not> isBroken img" and "renderLoop env props scene img i d 0 t [] = Inr (fs, e)"
  shows "loopOutcome d t fs e"
  using renderLoop_outcome [OF assms(1), of env props scene i d 0 t "[]"] assms(2) by auto

lemma processScenes_runs:
  assumes "list_all (\<lambda>scene. \<not> isBroken (loadSceneImage env scene)) ss"
  shows "\<exists>rs. (\<forall>w acc. processScenes env props i ss w acc
                 = (Inr (acc @ rs), w\<lparr>consoleLog := consoleLog w @ sceneWarnings env ss\<rparr>))
              \<and> length rs = length ss
              \<and> (\<forall>k < length ss. sceneRendered env props (i + k) (ss ! k) (rs ! k))"
  using assms
proof (induction ss arbitrary: i)
  case Nil
  then show ?case by (simp add: sceneWarnings_def)
next
  case (Cons scene rest)
  let ?img = "loadSceneImage env scene"
  let ?decoded = "loadSceneAudio env scene"
  let ?d = "sceneDurationMs ?decoded"
  from Cons.prems have ok: "\<not> isBroken ?img"
    and rest: "list_all (\<lambda>scene. \<not> isBroken (loadSceneImage env scene)) rest"
    by simp_all
  from renderLoop_outcome [OF ok, of env props scene i ?d 0 0 "[]"]
  obtain fs e where loop: "renderLoop env props scene ?img i ?d 0 0 [] = Inr (fs, e)"
    by auto
  let ?r = "\<lparr>renderIndex = i, renderDurationMs = ?d, renderNarration = ?decoded,
              renderFrames = fs, renderEnd = e\<rparr>"
  from Cons.IH [OF rest, of "Suc i"]
  obtain rs where run: "\<And>w acc. processScenes env props (Suc i) rest w acc
                 = (Inr (acc @ rs), w\<lparr>consoleLog := consoleLog w @ sceneWarnings env rest\<rparr>)"
    and len: "length rs = length rest"
    and each: "\<forall>k < length rest. sceneRendered env props (Suc i + k) (rest ! k) (rs ! k)"
    by blast
  have step: "processScenes env props i (scene # rest) w acc
                 = (Inr (acc @ (?r # rs)), w\<lparr>consoleLog := consoleLog w @ sceneWarnings env (scene # rest)\<rparr>)"
    for w acc
    using loop run by (simp add: Let_def sceneWarnings_def sceneAudioFailed_def logWarn_def)
  have first: "sceneRendered env props i scene ?r"
    using loop by (simp add: sceneRendered_def)
  have "\<forall>k < length (scene # rest). sceneRendered env props (i + k) ((scene # rest) ! k) ((?r # rs) ! k)"
  proof (intro allI impI)
    fix k assume k: "k < length (scene # rest)"
    show "sceneRendered env props (i + k) ((scene # rest) ! k) ((?r # rs) ! k)"
    proof (cases k)
      case 0
      then show ?thesis using first by simp
    next
      case (Suc k')
      then show ?thesis using each k by simp
    qed
  qed
  with step len show ?case by (intro exI [of _ "?r # rs"]) simp
qed

lemma handleExportVideo_runs:
  assumes "pipelineAvailable env props" and "length (scenes props) \<noteq> 0"
  shows "\<exists>v. handleExportVideo env props w
               = w\<lparr>isPlaying := False, isExporting := False,
                   consoleLog := consoleLog w
                     @ (if musicFailed env props
                        then [ConsoleWarn ''Failed to load background music for export''] else [])
                     @ sceneWarnings env (scenes props),
                   downloads := downloads w @ [VideoDownload v]\<rparr>
            \<and> videoName v = ''video_'' @ natToString (finishTime env) @ ''.webm''
            \<and> videoMusicGain v = (if loadMusic env props \<noteq> None then Some (musicVolume props) else None)
            \<and> length (videoScenes v) = length (scenes props)
            \<and> (\<forall>k < length (scenes props).
                  sceneRendered env props k (scenes props ! k) (videoScenes v ! k))"
proof -
  from assms(1) have avail: "canvasPresent env" "contextAvailable env" "audioContextAvailable env"
      "recorderAvailable env"
    and imgs: "list_all (\<lambda>scene. \<not> isBroken (loadSceneImage env scene)) (scenes props)"
    by (simp_all add: pipelineAvailable_def)
  from processScenes_runs [OF imgs, of props 0]
  obtain rs where run: "\<And>w acc. processScenes env props 0 (scenes props) w acc
                 = (Inr (acc @ rs), w\<lparr>consoleLog := consoleLog w @ sceneWarnings env (scenes props)\<rparr>)"
    and len: "length rs = length (scenes props)"
    and each: "\<forall>k < length (scenes props). sceneRendered env props k (scenes props ! k) (rs ! k)"
    by auto
  let ?v = "\<lparr>videoName = ''video_'' @ natToString (finishTime env) @ ''.webm'',
              videoMusicGain = (if loadMusic env props \<noteq> None then Some (musicVolume props) else None),
              videoScenes = rs\<rparr>"
  have "handleExportVideo env props w
               = w\<lparr>isPlaying := False, isExporting := False,
                   consoleLog := consoleLog w
                     @ (if musicFailed env props
                        then [ConsoleWarn ''Failed to load background music for export''] else [])
                     @ sceneWarnings env (scenes props),
                   downloads := downloads w @ [VideoDownload ?v]\<rparr>"
    using assms(2) avail
    by (cases "loadMusic env props"; cases "truthy (backgroundMusicUrl props)")
       (simp_all add: handleExportVideo_def exportSettle_def exportTry_def Let_def run
        exportBegin_def logWarn_def musicFailed_def)
  with len each show ?thesis by (intro exI [of _ ?v]) simp
qed

lemma sceneDurationMs_audio:
  "audioUrl scene = Some url \<Longrightarrow> url \<noteq> [] \<Longrightarrow> decodeAudio env url = Some seconds
     \<Longrightarrow> sceneDurationMs (loadSceneAudio env scene) = seconds * 1000 + 500"
  by (simp add: sceneDurationMs_def loadSceneAudio_def)

lemma sceneDurationMs_no_audio:
  "\<not> truthy (audioUrl scene) \<Longrightarrow> sceneDurationMs (loadSceneAudio env scene) = 3000 + 500"
  by (auto simp: sceneDurationMs_def loadSceneAudio_def truthy_def split: option.splits)

lemma sceneDurationMs_failed:
  "sceneAudioFailed env scene \<Longrightarrow> sceneDurationMs (loadSceneAudio env scene) = 3000 + 500"
  by (simp add: sceneDurationMs_def sceneAudioFailed_def)

lemma sceneDurationMs_ge:
  "(case decoded of None \<Rightarrow> True | Some seconds \<Rightarrow> 0 \<le> seconds) \<Longrightarrow> 500 \<le> sceneDurationMs decoded"
  by (cases decoded) (simp_all add: sceneDurationMs_def)

text \<open>
  Claim C1. In an export whose pipeline is available, the recorded file has one entry per
  scene, in order, and for the scene at each position: the duration the loop runs against
  is the decoded audio duration in milliseconds plus 500 when the scene has an audio
  reference that decodes, and 3000 plus 500 when it has none; the animation loop of that
  scene is run against exactly this duration, from \<open>loopTime = 0\<close>: it draws a frame at every
  clock reading before the duration and ends at the first reading that is not before it.
\<close>

theorem scene_duration_nominal:
  assumes "pipelineAvailable env props" and "length (scenes props) \<noteq> 0"
  shows "\<exists>v. downloads (handleExportVideo env props w) = downloads w @ [VideoDownload v]
          \<and> length (videoScenes v) = length (scenes props)
          \<and> (\<forall>k < length (scenes props).
               (\<forall>url seconds. audioUrl (scenes props ! k) = Some url \<and> url \<noteq> []
                     \<and> decodeAudio env url = Some seconds
                  \<longrightarrow> renderDurationMs (videoScenes v ! k) = seconds * 1000 + 500)
             \<and> (\<not> truthy (audioUrl (scenes props ! k))
                  \<longrightarrow> renderDurationMs (videoScenes v ! k) = 3000 + 500)
             \<and> renderLoop env props (scenes props ! k) (loadSceneImage env (scenes props ! k)) k
                  (renderDurationMs (videoScenes v ! k)) 0 0 []
                 = Inr (renderFrames (videoScenes v ! k), renderEnd (videoScenes v ! k))
             \<and> loopOutcome (renderDurationMs (videoScenes v ! k)) 0
                  (renderFrames (videoScenes v ! k)) (renderEnd (videoScenes v ! k)))"
proof -
  from handleExportVideo_runs [OF assms, of w]
  obtain v where world: "handleExportVideo env props w
               = w\<lparr>isPlaying := False, isExporting := False,
                   consoleLog := consoleLog w
                     @ (if musicFailed env props
                        then [ConsoleWarn ''Failed to load background music for export''] else [])
                     @ sceneWarnings env (scenes props),
                   downloads := downloads w @ [VideoDownload v]\<rparr>"
    and len: "length (videoScenes v) = length (scenes props)"
    and each: "\<forall>k < length (scenes props).
                  sceneRendered env props k (scenes props ! k) (videoScenes v ! k)"
    by blast
  have dl: "downloads (handleExportVideo env props w) = downloads w @ [VideoDownload v]"
    by (simp add: world)
  have "(\<forall>url seconds. audioUrl (scenes props ! k) = Some url \<and> url \<noteq> []
                     \<and> decodeAudio env url = Some seconds
                  \<longrightarrow> renderDurationMs (videoScenes v ! k) = seconds * 1000 + 500)
             \<and> (\<not> truthy (audioUrl (scenes props ! k))
                  \<longrightarrow> renderDurationMs (videoScenes v ! k) = 3000 + 500)
             \<and> renderLoop env props (scenes props ! k) (loadSceneImage env (scenes props ! k)) k
                  (renderDurationMs (videoScenes v ! k)) 0 0 []
                 = Inr (renderFrames (videoScenes v ! k), renderEnd (videoScenes v ! k))
             \<and> loopOutcome (renderDurationMs (videoScenes v ! k)) 0
                  (renderFrames (videoScenes v ! k)) (renderEnd (videoScenes v ! k))"
    if k: "k < length (scenes props)" for k
  proof -
    let ?scene = "scenes props ! k" and ?r = "videoScenes v ! k"
    from each k have r: "sceneRendered env props k ?scene ?r" by blast
    then have d: "renderDurationMs ?r = sceneDurationMs (loadSceneAudio env ?scene)"
      and loop: "renderLoop env props ?scene (loadSceneImage env ?scene) k (renderDurationMs ?r) 0 0 []
                  = Inr (renderFrames ?r, renderEnd ?r)"
      unfolding sceneRendered_def by blast+
    from assms(1) k have "\<not> isBroken (loadSceneImage env ?scene)"
      by (simp add: pipelineAvailable_def list_all_length)
    then have "loopOutcome (renderDurationMs ?r) 0 (renderFrames ?r) (renderEnd ?r)"
      using loop by (rule renderLoop_outcome_unique)
    with d loop show ?thesis
      by (auto simp: sceneDurationMs_audio sceneDurationMs_no_audio)
  qed
  with dl len show ?thesis by blast
qed

lemma zoomScale_tendsto: "(zoomScale \<longlongrightarrow> 1.15) (at_left 1)"
proof -
  have "((\<lambda>p. 1.0 + (0.15 * p)) \<longlongrightarrow> 1.0 + (0.15 * 1)) (at_left (1::real))"
    by (intro tendsto_intros)
  moreover have "zoomScale = (\<lambda>p. 1.0 + (0.15 * p))"
    by (rule ext) (simp add: zoomScale_def)
  ultimately show ?thesis by simp
qed

lemma sorted_map_mono:
  assumes "sorted (map f xs)" and "\<And>x. x \<in> set xs \<Longrightarrow> g x = h (f x)" and "mono h"
  shows "sorted (map g xs)"
  using assms
proof (induction xs)
  case Nil
  then show ?case by simp
next
  case (Cons x xs)
  then have "\<forall>y \<in> set xs. f x \<le> f y" by simp
  then have "\<forall>y \<in> set xs. g x \<le> g y"
    using Cons.prems(2) Cons.prems(3) by (auto dest: monoD)
  moreover have "sorted (map g xs)" using Cons by simp
  ultimately show ?case by simp
qed

lemma renderLoop_steps:
  assumes "\<not> isBroken img"
  shows "\<exists>fs e. renderLoop env props scene img i d j t acc = Inr (acc @ fs, e)
          \<and> (\<forall>k < length fs.
                 frameLoopTime (fs ! k) = t + (\<Sum>m<k. frameAdvance env i (j + m))
                 \<and> frameWait (fs ! k) = frameDelay (frameCost env i (j + k))
                 \<and> drawFrame env props scene img (frameScale (fs ! k)) = Inr (frameOps (fs ! k)))
          \<and> e = t + (\<Sum>m<length fs. frameAdvance env i (j + m))"
  using assms
proof (induction env props scene img i d j t acc rule: renderLoop.induct)
  case (1 env props scene img i d j t acc)
  show ?case
  proof (cases "real t < d")
    case False
    then have "renderLoop env props scene img i d j t acc = Inr (acc @ [], t)"
      by (subst renderLoop_unfold) simp
    then show ?thesis by (intro exI [of _ "[]"] exI [of _ t]) simp
  next
    case True
    let ?p = "real t / d"
    obtain ops where ops: "drawFrame env props scene img (zoomScale ?p) = Inr ops"
      using "1.prems" by (rule drawFrame_not_broken)
    let ?f = "\<lparr>frameLoopTime = t, frameProgress = ?p, frameScale = zoomScale ?p,
               frameOps = ops, frameWait = frameDelay (frameCost env i j)\<rparr>"
    let ?t' = "t + frameAdvance env i j"
    from "1.IH" [OF True refl refl ops "1.prems"]
    obtain fs e where run: "renderLoop env props scene img i d (Suc j) ?t' (acc @ [?f]) = Inr ((acc @ [?f]) @ fs, e)"
      and each: "\<forall>k < length fs.
                 frameLoopTime (fs ! k) = ?t' + (\<Sum>m<k. frameAdvance env i (Suc j + m))
                 \<and> frameWait (fs ! k) = frameDelay (frameCost env i (Suc j + k))
                 \<and> drawFrame env props scene img (frameScale (fs ! k)) = Inr (frameOps (fs ! k))"
      and fin: "e = ?t' + (\<Sum>m<length fs. frameAdvance env i (Suc j + m))"
      by blast
    have step: "renderLoop env props scene img i d j t acc = Inr (acc @ (?f # fs), e)"
      using True ops run by (subst renderLoop_unfold) (simp add: Let_def)
    have shift: "t + (\<Sum>m<Suc k. frameAdvance env i (j + m))
                 = ?t' + (\<Sum>m<k. frameAdvance env i (Suc j + m))" for k
      by (simp add: sum.lessThan_Suc_shift del: sum.lessThan_Suc)
    have "frameLoopTime ((?f # fs) ! k) = t + (\<Sum>m<k. frameAdvance env i (j + m))
          \<and> frameWait ((?f # fs) ! k) = frameDelay (frameCost env i (j + k))
          \<and> drawFrame env props scene img (frameScale ((?f # fs) ! k)) = Inr (frameOps ((?f # fs) ! k))"
      if k: "k < length (?f # fs)" for k
    proof (cases k)
      case 0
      then show ?thesis using ops by simp
    next
      case (Suc k')
      with k have "k' < length fs" by simp
      with each have "frameLoopTime (fs ! k') = ?t' + (\<Sum>m<k'. frameAdvance env i (Suc j + m))
                 \<and> frameWait (fs ! k') = frameDelay (frameCost env i (Suc j + k'))
                 \<and> drawFrame env props scene img (frameScale (fs ! k')) = Inr (frameOps (fs ! k'))"
        by blast
      then show ?thesis unfolding Suc using shift [of k'] by simp
    qed
    moreover have "e = t + (\<Sum>m<length (?f # fs). frameAdvance env i (j + m))"
      using fin shift [of "length fs"] by simp
    ultimately show ?thesis using step by blast
  qed
qed

lemma sum_advance_strict:
  assumes "k < l"
  shows "(\<Sum>m<k. frameAdvance env i m) < (\<Sum>m<l. frameAdvance env i m)"
  using assms
proof (induction l)
  case 0
  then show ?case by simp
next
  case (Suc l)
  have pos: "0 < frameAdvance env i l" using frameAdvance_ge [of env i l] by simp
  show ?case
  proof (cases "k = l")
    case True
    then show ?thesis using pos by simp
  next
    case False
    with Suc.prems have "k < l" by simp
    from Suc.IH [OF this] show ?thesis by simp
  qed
qed

lemma drawFrame_scale_op:
  "drawFrame env props scene (Loaded url iw ih) s = Inr ops \<Longrightarrow> Scale s s \<in> set ops"
  by (auto simp: drawFrame_def drawImageOps_def Let_def)

text \<open>
  Claim C3. In the animation loop of a scene (duration \<open>d > 0\<close>), every frame is drawn with
  zoom \<open>1.0 + 0.15 * progress\<close> where \<open>progress = loopTime / d\<close> lies in \<open>[0, 1)\<close>, and that
  zoom is the factor the frame is drawn with (the \<open>ctx.scale\<close> of a frame with an image).
  The first frame is drawn at \<open>loopTime = 0\<close> with progress 0 and zoom exactly 1; every later
  frame is drawn one pass of the loop later than the frame before it, so over the frames of
  the scene, in the order drawn, the zoom increases. The zoom stays below 1.15, the limit of
  \<open>1.0 + 0.15 * progress\<close> as the progress tends to 1 from below, and the last frame comes
  within \<open>0.15 * (duration of its pass) / d\<close> of it.
\<close>

theorem zoom_scale_linear:
  assumes "\<not> isBroken img" and "0 < d"
  shows "\<exists>fs e. renderLoop env props scene img i d 0 0 [] = Inr (fs, e)
        \<and> fs \<noteq> [] \<and> frameLoopTime (hd fs) = 0
        \<and> frameProgress (hd fs) = 0 \<and> frameScale (hd fs) = 1
        \<and> (\<forall>f \<in> set fs. frameProgress f = real (frameLoopTime f) / d
              \<and> 0 \<le> frameProgress f \<and> frameProgress f < 1
              \<and> frameScale f = 1.0 + 0.15 * frameProgress f
              \<and> 1 \<le> frameScale f \<and> frameScale f < 1.15
              \<and> drawFrame env props scene img (frameScale f) = Inr (frameOps f)
              \<and> (\<forall>url iw ih. img = Loaded url iw ih
                    \<longrightarrow> Scale (frameScale f) (frameScale f) \<in> set (frameOps f)))
        \<and> (\<forall>k < length fs. frameLoopTime (fs ! k) = (\<Sum>m<k. frameAdvance env i m))
        \<and> e = (\<Sum>m<length fs. frameAdvance env i m) \<and> d \<le> real e
        \<and> sorted_wrt (<) (map frameScale fs)
        \<and> sorted (map frameScale fs)
        \<and> 1.15 - 0.15 * real (frameAdvance env i (length fs - 1)) / d \<le> frameScale (last fs)
        \<and> zoomScale 0 = 1 \<and> (zoomScale \<longlongrightarrow> 1.15) (at_left 1)"
proof -
  from renderLoop_outcome [OF assms(1), of env props scene i d 0 0 "[]"]
  obtain fs e where run: "renderLoop env props scene img i d 0 0 [] = Inr (fs, e)"
    and out: "loopOutcome d 0 fs e"
    by auto
  from renderLoop_steps [OF assms(1), of env props scene i d 0 0 "[]"] run
  have steps: "\<forall>k < length fs.
                 frameLoopTime (fs ! k) = (\<Sum>m<k. frameAdvance env i m)
                 \<and> drawFrame env props scene img (frameScale (fs ! k)) = Inr (frameOps (fs ! k))"
    and fin: "e = (\<Sum>m<length fs. frameAdvance env i m)"
    by auto
  from out assms(2) have ne: "fs \<noteq> []" and first: "frameLoopTime (hd fs) = 0"
    by (simp_all add: loopOutcome_def)
  from out have de: "d \<le> real e" by (simp add: loopOutcome_def)
  have each: "frameProgress f = real (frameLoopTime f) / d \<and> real (frameLoopTime f) < d
      \<and> frameScale f = zoomScale (frameProgress f)" if "f \<in> set fs" for f
    using out that by (auto simp: loopOutcome_def list_all_iff)
  have hd_in: "hd fs \<in> set fs" using ne by simp
  have p0: "frameProgress (hd fs) = 0" using each [OF hd_in] first by simp
  have s0: "frameScale (hd fs) = 1" using each [OF hd_in] p0 by (simp add: zoomScale_def)
  have bounds: "\<forall>f \<in> set fs. frameProgress f = real (frameLoopTime f) / d
              \<and> 0 \<le> frameProgress f \<and> frameProgress f < 1
              \<and> frameScale f = 1.0 + 0.15 * frameProgress f
              \<and> 1 \<le> frameScale f \<and> frameScale f < 1.15
              \<and> drawFrame env props scene img (frameScale f) = Inr (frameOps f)
              \<and> (\<forall>url iw ih. img = Loaded url iw ih
                    \<longrightarrow> Scale (frameScale f) (frameScale f) \<in> set (frameOps f))"
  proof (intro ballI)
    fix f assume f: "f \<in> set fs"
    from each [OF f] assms(2)
    have pd: "frameProgress f = real (frameLoopTime f) / d"
      and p: "0 \<le> frameProgress f" "frameProgress f < 1"
      and s: "frameScale f = zoomScale (frameProgress f)"
      by (simp_all add: divide_less_eq)
    from f obtain k where "k < length fs" and "fs ! k = f" by (auto simp: in_set_conv_nth)
    with steps have draw: "drawFrame env props scene img (frameScale f) = Inr (frameOps f)"
      by auto
    then have sc: "\<forall>url iw ih. img = Loaded url iw ih
                    \<longrightarrow> Scale (frameScale f) (frameScale f) \<in> set (frameOps f)"
      by (auto dest: drawFrame_scale_op)
    from s have s': "frameScale f = 1.0 + 0.15 * frameProgress f" by (simp add: zoomScale_def)
    from s' p have lo: "1 \<le> frameScale f" and hi: "frameScale f < 1.15" by simp_all
    show "frameProgress f = real (frameLoopTime f) / d
              \<and> 0 \<le> frameProgress f \<and> frameProgress f < 1
              \<and> frameScale f = 1.0 + 0.15 * frameProgress f
              \<and> 1 \<le> frameScale f \<and> frameScale f < 1.15
              \<and> drawFrame env props scene img (frameScale f) = Inr (frameOps f)
              \<and> (\<forall>url iw ih. img = Loaded url iw ih
                    \<longrightarrow> Scale (frameScale f) (frameScale f) \<in> set (frameOps f))"
      by (intro conjI pd p s' lo hi draw sc)
  qed
  have times: "\<forall>k < length fs. frameLoopTime (fs ! k) = (\<Sum>m<k. frameAdvance env i m)"
    using steps by blast
  have scale_at: "frameScale (fs ! k) = zoomScale (real (frameLoopTime (fs ! k)) / d)"
    if "k < length fs" for k
    using each [of "fs ! k"] that by simp
  have strict: "sorted_wrt (<) (map frameScale fs)"
    unfolding sorted_wrt_iff_nth_less
  proof (intro allI impI)
    fix a b assume ab: "a < b" and b: "b < length (map frameScale fs)"
    then have la: "a < length fs" and lb: "b < length fs" by simp_all
    have "frameLoopTime (fs ! a) < frameLoopTime (fs ! b)"
      using times la lb sum_advance_strict [OF ab, of env i] by simp
    then have "real (frameLoopTime (fs ! a)) / d < real (frameLoopTime (fs ! b)) / d"
      using assms(2) by (simp add: divide_strict_right_mono)
    then have "frameScale (fs ! a) < frameScale (fs ! b)"
      using scale_at [OF la] scale_at [OF lb] by (simp add: zoomScale_def)
    then show "map frameScale fs ! a < map frameScale fs ! b"
      using la lb by simp
  qed
  then have srt: "sorted (map frameScale fs)"
    by (rule strict_sorted_imp_sorted)
  have lst: "1.15 - 0.15 * real (frameAdvance env i (length fs - 1)) / d \<le> frameScale (last fs)"
  proof -
    let ?n = "length fs - 1"
    have n: "?n < length fs" using ne by simp
    have l: "last fs = fs ! ?n" using ne by (simp add: last_conv_nth)
    have "length fs = Suc ?n" using ne by simp
    then have "e = (\<Sum>m<Suc ?n. frameAdvance env i m)" using fin by simp
    then have "e = frameLoopTime (fs ! ?n) + frameAdvance env i ?n"
      using times n by simp
    with de have "d \<le> real (frameLoopTime (fs ! ?n)) + real (frameAdvance env i ?n)"
      by simp
    then have "1 \<le> (real (frameLoopTime (fs ! ?n)) + real (frameAdvance env i ?n)) / d"
      using assms(2) by (simp add: le_divide_eq_1_pos)
    then have "1 - real (frameAdvance env i ?n) / d \<le> real (frameLoopTime (fs ! ?n)) / d"
      by (simp add: add_divide_distrib)
    then have "1.15 - 0.15 * real (frameAdvance env i ?n) / d
               \<le> zoomScale (real (frameLoopTime (fs ! ?n)) / d)"
      by (simp add: zoomScale_def)
    then show ?thesis using scale_at [OF n] l by simp
  qed
  have z0: "zoomScale 0 = 1" by (simp add: zoomScale_def)
  show ?thesis
    by (intro exI [of _ fs] exI [of _ e] conjI run ne first p0 s0 bounds times fin de strict srt
        lst z0 zoomScale_tendsto)
qed

text \<open>
  Claim C7. In an export whose pipeline is available, whatever audio fails to load: the
  export ends with exactly one new download and no alert, with the flag reset and every
  resource it took released; the recorded file has an entry for every scene, each with its
  animation loop run to the end; a scene whose audio failed runs against 3000 + 500 ms
  without narration and a warning is on the console; failed background music leaves the
  file without a music source (silence) and a warning on the console.
\<close>

theorem audio_failure_never_aborts:
  assumes "pipelineAvailable env props" and "length (scenes props) \<noteq> 0"
  shows "\<exists>v. handleExportVideo env props w
               = w\<lparr>isPlaying := False, isExporting := False,
                   consoleLog := consoleLog w
                     @ (if musicFailed env props
                        then [ConsoleWarn ''Failed to load background music for export''] else [])
                     @ sceneWarnings env (scenes props),
                   downloads := downloads w @ [VideoDownload v]\<rparr>
          \<and> alerts (handleExportVideo env props w) = alerts w
          \<and> length (videoScenes v) = length (scenes props)
          \<and> (musicFailed env props \<longrightarrow>
                videoMusicGain v = None
                \<and> ConsoleWarn ''Failed to load background music for export''
                    \<in> set (consoleLog (handleExportVideo env props w)))
          \<and> (\<forall>k < length (scenes props).
                sceneRendered env props k (scenes props ! k) (videoScenes v ! k)
                \<and> (sceneAudioFailed env (scenes props ! k) \<longrightarrow>
                      renderDurationMs (videoScenes v ! k) = 3000 + 500
                      \<and> renderNarration (videoScenes v ! k) = None
                      \<and> ConsoleWarn ''Failed to load scene audio''
                          \<in> set (consoleLog (handleExportVideo env props w))))"
proof -
  from handleExportVideo_runs [OF assms, of w]
  obtain v where world: "handleExportVideo env props w
               = w\<lparr>isPlaying := False, isExporting := False,
                   consoleLog := consoleLog w
                     @ (if musicFailed env props
                        then [ConsoleWarn ''Failed to load background music for export''] else [])
                     @ sceneWarnings env (scenes props),
                   downloads := downloads w @ [VideoDownload v]\<rparr>"
    and gain: "videoMusicGain v = (if loadMusic env props \<noteq> None then Some (musicVolume props) else None)"
    and len: "length (videoScenes v) = length (scenes props)"
    and each: "\<forall>k < length (scenes props).
                  sceneRendered env props k (scenes props ! k) (videoScenes v ! k)"
    by blast
  have al: "alerts (handleExportVideo env props w) = alerts w"
    by (simp add: world)
  have music: "musicFailed env props \<longrightarrow>
                videoMusicGain v = None
                \<and> ConsoleWarn ''Failed to load background music for export''
                    \<in> set (consoleLog (handleExportVideo env props w))"
    by (simp add: world gain musicFailed_def)
  have "sceneRendered env props k (scenes props ! k) (videoScenes v ! k)
                \<and> (sceneAudioFailed env (scenes props ! k) \<longrightarrow>
                      renderDurationMs (videoScenes v ! k) = 3000 + 500
                      \<and> renderNarration (videoScenes v ! k) = None
                      \<and> ConsoleWarn ''Failed to load scene audio''
                          \<in> set (consoleLog (handleExportVideo env props w)))"
    if k: "k < length (scenes props)" for k
  proof -
    let ?scene = "scenes props ! k" and ?r = "videoScenes v ! k"
    from each k have r: "sceneRendered env props k ?scene ?r" by blast
    have "renderDurationMs ?r = 3000 + 500 \<and> renderNarration ?r = None
          \<and> ConsoleWarn ''Failed to load scene audio'' \<in> set (consoleLog (handleExportVideo env props w))"
      if failed: "sceneAudioFailed env ?scene"
    proof -
      from r have "renderDurationMs ?r = sceneDurationMs (loadSceneAudio env ?scene)"
        and "renderNarration ?r = loadSceneAudio env ?scene"
        unfolding sceneRendered_def by blast+
      with failed have a: "renderDurationMs ?r = 3000 + 500" and b: "renderNarration ?r = None"
        by (simp_all add: sceneDurationMs_failed) (simp add: sceneAudioFailed_def)
      have "?scene \<in> set (filter (sceneAudioFailed env) (scenes props))"
        using k failed by simp
      then have "ConsoleWarn ''Failed to load scene audio'' \<in> set (sceneWarnings env (scenes props))"
        unfolding sceneWarnings_def by (auto simp del: set_filter)
      then have "ConsoleWarn ''Failed to load scene audio'' \<in> set (consoleLog (handleExportVideo env props w))"
        by (simp add: world)
      with a b show ?thesis by blast
    qed
    with r show ?thesis by blast
  qed
  with world al len music show ?thesis by blast
qed

lemma example_pipelineAvailable:
  "pipelineAvailable exampleBrowser (exampleProps [exampleScene a x, exampleScene b y] music style)"
  by (simp add: pipelineAvailable_def exampleBrowser_def exampleProps_def exampleScene_def
      loadSceneImage_def isBroken_def)

theorem scene_duration_nominal_witness:
  "pipelineAvailable exampleBrowser
     (exampleProps [exampleScene ''Hello'' (Some ''ok.wav''), exampleScene ''world'' None] None MODERN)
   \<and> length (scenes (exampleProps [exampleScene ''Hello'' (Some ''ok.wav''), exampleScene ''world'' None] None MODERN)) \<noteq> 0
   \<and> (\<exists>v. downloads (handleExportVideo exampleBrowser
             (exampleProps [exampleScene ''Hello'' (Some ''ok.wav''), exampleScene ''world'' None] None MODERN)
             (initialWorld ''VideoCreator'')) = [VideoDownload v]
          \<and> length (videoScenes v) = 2
          \<and> renderDurationMs (videoScenes v ! 0) = 2500
          \<and> renderDurationMs (videoScenes v ! 1) = 3500)"
proof -
  let ?P = "exampleProps [exampleScene ''Hello'' (Some ''ok.wav''), exampleScene ''world'' None] None MODERN"
  have h1: "pipelineAvailable exampleBrowser ?P" by (rule example_pipelineAvailable)
  have h2: "length (scenes ?P) \<noteq> 0" by (simp add: exampleProps_def)
  have s0: "audioUrl (scenes ?P ! 0) = Some ''ok.wav'' \<and> ''ok.wav'' \<noteq> []
      \<and> decodeAudio exampleBrowser ''ok.wav'' = Some 2"
    by (simp add: exampleProps_def exampleScene_def exampleBrowser_def)
  have s1: "\<not> truthy (audioUrl (scenes ?P ! 1))"
    by (simp add: exampleProps_def exampleScene_def truthy_def)
  have l: "length (scenes ?P) = 2" by (simp add: exampleProps_def)
  from scene_duration_nominal [OF h1 h2, of "initialWorld ''VideoCreator''"]
  obtain v where dl: "downloads (handleExportVideo exampleBrowser ?P (initialWorld ''VideoCreator''))
        = downloads (initialWorld ''VideoCreator'') @ [VideoDownload v]"
    and len: "length (videoScenes v) = length (scenes ?P)"
    and each: "\<forall>k < length (scenes ?P).
               (\<forall>url seconds. audioUrl (scenes ?P ! k) = Some url \<and> url \<noteq> []
                     \<and> decodeAudio exampleBrowser url = Some seconds
                  \<longrightarrow> renderDurationMs (videoScenes v ! k) = seconds * 1000 + 500)
             \<and> (\<not> truthy (audioUrl (scenes ?P ! k))
                  \<longrightarrow> renderDurationMs (videoScenes v ! k) = 3000 + 500)"
    by blast
  have k0: "0 < length (scenes ?P)" and k1: "1 < length (scenes ?P)" using l by simp_all
  from each k0 have "\<forall>url seconds. audioUrl (scenes ?P ! 0) = Some url \<and> url \<noteq> []
                     \<and> decodeAudio exampleBrowser url = Some seconds
                  \<longrightarrow> renderDurationMs (videoScenes v ! 0) = seconds * 1000 + 500"
    by blast
  with s0 have d0: "renderDurationMs (videoScenes v ! 0) = 2 * 1000 + 500" by blast
  from each k1 have "\<not> truthy (audioUrl (scenes ?P ! 1))
                  \<longrightarrow> renderDurationMs (videoScenes v ! 1) = 3000 + 500"
    by blast
  with s1 have d1: "renderDurationMs (videoScenes v ! 1) = 3000 + 500" by blast
  have "downloads (handleExportVideo exampleBrowser ?P (initialWorld ''VideoCreator'')) = [VideoDownload v]"
    using dl by (simp add: initialWorld_def)
  with h1 h2 len l d0 d1 show ?thesis by (intro conjI exI [of _ v]) simp_all
qed

theorem zoom_scale_linear_witness:
  "\<not> isBroken (Loaded ''scene.jpg'' 1920 1080) \<and> (0::real) < 3500
   \<and> (\<exists>fs e. renderLoop exampleBrowser (exampleProps [] None MODERN) (exampleScene ''Hello world'' None)
                 (Loaded ''scene.jpg'' 1920 1080) 0 3500 0 0 [] = Inr (fs, e)
        \<and> fs \<noteq> [] \<and> frameLoopTime (hd fs) = 0 \<and> frameScale (hd fs) = 1
        \<and> Scale 1 1 \<in> set (frameOps (hd fs))
        \<and> sorted_wrt (<) (map frameScale fs))"
proof -
  let ?img = "Loaded ''scene.jpg'' 1920 1080"
  let ?P = "exampleProps [] None MODERN" and ?S = "exampleScene ''Hello world'' None"
  have h1: "\<not> isBroken ?img" by (simp add: isBroken_def)
  have h2: "(0::real) < 3500" by simp
  have "\<exists>fs e. renderLoop exampleBrowser ?P ?S ?img 0 3500 0 0 [] = Inr (fs, e)
        \<and> fs \<noteq> [] \<and> frameLoopTime (hd fs) = 0 \<and> frameScale (hd fs) = 1
        \<and> Scale 1 1 \<in> set (frameOps (hd fs))
        \<and> sorted_wrt (<) (map frameScale fs)"
    using zoom_scale_linear [OF h1 h2, of exampleBrowser ?P ?S 0]
  proof (elim exE conjE)
    fix fs e
    assume run: "renderLoop exampleBrowser ?P ?S ?img 0 3500 0 0 [] = Inr (fs, e)"
      and ne: "fs \<noteq> []" and t0: "frameLoopTime (hd fs) = 0" and s0: "frameScale (hd fs) = 1"
      and each: "\<forall>f \<in> set fs. frameProgress f = real (frameLoopTime f) / 3500
              \<and> 0 \<le> frameProgress f \<and> frameProgress f < 1
              \<and> frameScale f = 1.0 + 0.15 * frameProgress f
              \<and> 1 \<le> frameScale f \<and> frameScale f < 1.15
              \<and> drawFrame exampleBrowser ?P ?S ?img (frameScale f) = Inr (frameOps f)
              \<and> (\<forall>url iw ih. ?img = Loaded url iw ih
                    \<longrightarrow> Scale (frameScale f) (frameScale f) \<in> set (frameOps f))"
      and strict: "sorted_wrt (<) (map frameScale fs)"
    from ne have "hd fs \<in> set fs" by simp
    with each have "\<forall>url iw ih. ?img = Loaded url iw ih
                    \<longrightarrow> Scale (frameScale (hd fs)) (frameScale (hd fs)) \<in> set (frameOps (hd fs))"
      by blast
    then have sc: "Scale 1 1 \<in> set (frameOps (hd fs))" unfolding s0 by blast
    show ?thesis
      by (intro exI [of _ fs] exI [of _ e] conjI run ne t0 s0 sc strict)
  qed
  with h1 h2 show ?thesis by blast
qed

theorem audio_failure_never_aborts_witness:
  "pipelineAvailable exampleBrowser
     (exampleProps [exampleScene ''Hello'' (Some ''missing.wav''), exampleScene ''world'' (Some ''ok.wav'')]
        (Some ''missing.mp3'') MODERN)
   \<and> musicFailed exampleBrowser
     (exampleProps [exampleScene ''Hello'' (Some ''missing.wav''), exampleScene ''world'' (Some ''ok.wav'')]
        (Some ''missing.mp3'') MODERN)
   \<and> sceneAudioFailed exampleBrowser (exampleScene ''Hello'' (Some ''missing.wav''))
   \<and> (\<exists>v. downloads (handleExportVideo exampleBrowser
             (exampleProps [exampleScene ''Hello'' (Some ''missing.wav''), exampleScene ''world'' (Some ''ok.wav'')]
                (Some ''missing.mp3'') MODERN)
             (initialWorld ''VideoCreator'')) = [VideoDownload v]
          \<and> alerts (handleExportVideo exampleBrowser
             (exampleProps [exampleScene ''Hello'' (Some ''missing.wav''), exampleScene ''world'' (Some ''ok.wav'')]
                (Some ''missing.mp3'') MODERN)
             (initialWorld ''VideoCreator'')) = []
          \<and> videoMusicGain v = None
          \<and> length (videoScenes v) = 2
          \<and> renderDurationMs (videoScenes v ! 0) = 3500
          \<and> renderNarration (videoScenes v ! 0) = None
          \<and> renderDurationMs (videoScenes v ! 1) = 2500)"
proof -
  let ?P = "exampleProps [exampleScene ''Hello'' (Some ''missing.wav''), exampleScene ''world'' (Some ''ok.wav'')]
        (Some ''missing.mp3'') MODERN"
  let ?w = "initialWorld ''VideoCreator''"
  have h1: "pipelineAvailable exampleBrowser ?P" by (rule example_pipelineAvailable)
  have h2: "length (scenes ?P) \<noteq> 0" by (simp add: exampleProps_def)
  have l: "length (scenes ?P) = 2" by (simp add: exampleProps_def)
  have mf: "musicFailed exampleBrowser ?P"
    by (simp add: musicFailed_def loadMusic_def truthy_def exampleProps_def exampleBrowser_def)
  have sc0: "scenes ?P ! 0 = exampleScene ''Hello'' (Some ''missing.wav'')"
    and sc1: "scenes ?P ! 1 = exampleScene ''world'' (Some ''ok.wav'')"
    by (simp_all add: exampleProps_def)
  have sf: "sceneAudioFailed exampleBrowser (exampleScene ''Hello'' (Some ''missing.wav''))"
    by (simp add: sceneAudioFailed_def loadSceneAudio_def truthy_def exampleScene_def exampleBrowser_def)
  have ok1: "sceneDurationMs (loadSceneAudio exampleBrowser (exampleScene ''world'' (Some ''ok.wav''))) = 2500"
    by (simp add: sceneDurationMs_def loadSceneAudio_def exampleScene_def exampleBrowser_def)
  from audio_failure_never_aborts [OF h1 h2, of ?w]
  obtain v where world: "handleExportVideo exampleBrowser ?P ?w
               = ?w\<lparr>isPlaying := False, isExporting := False,
                   consoleLog := consoleLog ?w
                     @ (if musicFailed exampleBrowser ?P
                        then [ConsoleWarn ''Failed to load background music for export''] else [])
                     @ sceneWarnings exampleBrowser (scenes ?P),
                   downloads := downloads ?w @ [VideoDownload v]\<rparr>"
    and al: "alerts (handleExportVideo exampleBrowser ?P ?w) = alerts ?w"
    and len: "length (videoScenes v) = length (scenes ?P)"
    and music: "musicFailed exampleBrowser ?P \<longrightarrow> videoMusicGain v = None"
    and each: "\<forall>k < length (scenes ?P).
                sceneRendered exampleBrowser ?P k (scenes ?P ! k) (videoScenes v ! k)
                \<and> (sceneAudioFailed exampleBrowser (scenes ?P ! k) \<longrightarrow>
                      renderDurationMs (videoScenes v ! k) = 3000 + 500
                      \<and> renderNarration (videoScenes v ! k) = None)"
    by blast
  have dl: "downloads (handleExportVideo exampleBrowser ?P ?w) = [VideoDownload v]"
    unfolding world by (simp add: initialWorld_def)
  have k0: "0 < length (scenes ?P)" and k1: "1 < length (scenes ?P)" using l by simp_all
  have al': "alerts (handleExportVideo exampleBrowser ?P ?w) = []"
    using al by (simp add: initialWorld_def)
  from each k0 have "sceneAudioFailed exampleBrowser (scenes ?P ! 0) \<longrightarrow>
                      renderDurationMs (videoScenes v ! 0) = 3000 + 500
                      \<and> renderNarration (videoScenes v ! 0) = None"
    by blast
  with sf have r0: "renderDurationMs (videoScenes v ! 0) = 3000 + 500
      \<and> renderNarration (videoScenes v ! 0) = None"
    unfolding sc0 by blast
  from each k1 have "sceneRendered exampleBrowser ?P 1 (scenes ?P ! 1) (videoScenes v ! 1)"
    by blast
  then have "sceneRendered exampleBrowser ?P 1 (exampleScene ''world'' (Some ''ok.wav'')) (videoScenes v ! 1)"
    unfolding sc1 .
  then have r1: "renderDurationMs (videoScenes v ! 1) = 2500"
    unfolding sceneRendered_def using ok1 by simp
  from h1 mf sf dl al' music len l r0 r1 show ?thesis
    by (intro conjI exI [of _ v]) simp_all
qed

section \<open>Subtitle styles\<close>

lemma shadow_all_set:
  "s\<lparr>shadowColor := a, shadowBlur := b, shadowOffsetX := c, shadowOffsetY := d\<rparr>
     = \<lparr>shadowColor = a, shadowBlur = b, shadowOffsetX = c, shadowOffsetY = d\<rparr>"
  by (cases s) simp

lemma paint_linesOps:
  assumes "csShadow st = subtitleShadow"
  shows "paint st stk (linesOps m style x y n i ls @ [ShadowColor c])
         = concat (map (\<lambda>k. paintedLine m style x y n (i + k) (ls ! k)) [0 ..< length ls])"
  using assms
proof (induction ls arbitrary: i st)
  case Nil
  then show ?case by simp
next
  case (Cons l ls)
  let ?colour = "if style = CLASSIC then ''#FFD700'' else ''#ffffff''"
  let ?st' = "st\<lparr>csFillStyle := ?colour\<rparr>"
  have sh: "csShadow ?st' = subtitleShadow" using Cons.prems by simp
  have line: "paint st stk (lineOps m style x y n i l @ rest)
              = paintedLine m style x y n i l @ paint ?st' stk rest" for rest
    using Cons.prems by (simp add: lineOps_def paintedLine_def Let_def)
  have "paint st stk (linesOps m style x y n i (l # ls) @ [ShadowColor c])
        = paintedLine m style x y n i l @ paint ?st' stk (linesOps m style x y n (Suc i) ls @ [ShadowColor c])"
    using line [of "linesOps m style x y n (Suc i) ls @ [ShadowColor c]"] by simp
  also have "paint ?st' stk (linesOps m style x y n (Suc i) ls @ [ShadowColor c])
        = concat (map (\<lambda>k. paintedLine m style x y n (Suc i + k) (ls ! k)) [0 ..< length ls])"
    by (rule Cons.IH [OF sh])
  finally show ?case by (simp add: map_upt_Suc del: upt_Suc)
qed

text \<open>
  Claim C8, as the code has it. When subtitles are drawn (they are shown and the narration
  is not empty), what is painted is, for every wrapped line in order: in the style
  \<open>MODERN\<close> a plain rectangle (\<open>fillRect\<close>) in \<open>rgba(0,0,0,0.6)\<close>, centred on the text, 20
  wider than the measured text and 60 high, painted before the text, then the text in
  white; in the style \<open>CLASSIC\<close> the text in gold \<open>#FFD700\<close> and no rectangle; in the styles
  \<open>KARAOKE\<close> and \<open>MINIMAL\<close> the text in white and no rectangle. In every style the text, and
  the rectangle where there is one, is painted under the shadow \<open>rgba(0,0,0,0.8)\<close>, blur 4,
  offset 2 and 2.
\<close>

theorem subtitle_style_painting:
  assumes "narr \<noteq> []"
  shows "paint st stk (subtitleOps m style True w h narr)
         = concat (map (\<lambda>i. paintedLine m style (w / 2) (h - 100)
                                (length (wordWrap m (w * 0.8) narr)) i
                                (wordWrap m (w * 0.8) narr ! i))
                     [0 ..< length (wordWrap m (w * 0.8) narr)])
       \<and> paintedLine m MODERN x y n i line
           = [PaintedRect ''rgba(0,0,0,0.6)'' subtitleShadow
                (x - m line / 2 - 10) (y - (real n - 1 - real i) * 60 - 48) (m line + 20) 60,
              PaintedText line ''#ffffff'' subtitleShadow x (y - (real n - 1 - real i) * 60)]
       \<and> paintedLine m CLASSIC x y n i line
           = [PaintedText line ''#FFD700'' subtitleShadow x (y - (real n - 1 - real i) * 60)]
       \<and> paintedLine m KARAOKE x y n i line
           = [PaintedText line ''#ffffff'' subtitleShadow x (y - (real n - 1 - real i) * 60)]
       \<and> paintedLine m MINIMAL x y n i line
           = [PaintedText line ''#ffffff'' subtitleShadow x (y - (real n - 1 - real i) * 60)]"
proof -
  let ?lines = "wordWrap m (w * 0.8) narr"
  let ?st = "st\<lparr>csFont := ''bold 48px sans-serif'', csTextAlign := ''center'',
                csTextBaseline := ''bottom'', csShadow := subtitleShadow\<rparr>"
  have "paint st stk (subtitleOps m style True w h narr)
        = paint ?st stk (linesOps m style (w / 2) (h - 100) (length ?lines) 0 ?lines
                          @ [ShadowColor ''transparent''])"
    using assms by (simp add: subtitleOps_def Let_def subtitleShadow_def shadow_all_set)
  also have "\<dots> = concat (map (\<lambda>k. paintedLine m style (w / 2) (h - 100) (length ?lines) (0 + k) (?lines ! k))
                          [0 ..< length ?lines])"
    by (rule paint_linesOps) simp
  finally show ?thesis by (simp add: paintedLine_def)
qed

theorem subtitle_style_painting_witness:
  "''Hello world'' \<noteq> []
   \<and> wordWrap charWidth10 (1920 * 0.8) ''Hello world'' = [''Hello world '']
   \<and> paint freshCanvas [] (subtitleOps charWidth10 MODERN True 1920 1080 ''Hello world'')
       = [PaintedRect ''rgba(0,0,0,0.6)'' subtitleShadow 890 932 140 60,
          PaintedText ''Hello world '' ''#ffffff'' subtitleShadow 960 980]
   \<and> paint freshCanvas [] (subtitleOps charWidth10 CLASSIC True 1920 1080 ''Hello world'')
       = [PaintedText ''Hello world '' ''#FFD700'' subtitleShadow 960 980]"
proof -
  have h: "''Hello world'' \<noteq> []" by simp
  have ls: "wordWrap charWidth10 (1920 * 0.8) ''Hello world'' = [''Hello world '']"
    by (simp add: wordWrap_def split_space_def charWidth10_def)
  have cw: "charWidth10 ''Hello world '' = 120" by (simp add: charWidth10_def)
  from subtitle_style_painting [OF h, of freshCanvas "[]" charWidth10 MODERN 1920 1080]
  have a: "paint freshCanvas [] (subtitleOps charWidth10 MODERN True 1920 1080 ''Hello world'')
       = [PaintedRect ''rgba(0,0,0,0.6)'' subtitleShadow 890 932 140 60,
          PaintedText ''Hello world '' ''#ffffff'' subtitleShadow 960 980]"
    unfolding ls by (simp add: paintedLine_def cw)
  from subtitle_style_painting [OF h, of freshCanvas "[]" charWidth10 CLASSIC 1920 1080]
  have b: "paint freshCanvas [] (subtitleOps charWidth10 CLASSIC True 1920 1080 ''Hello world'')
       = [PaintedText ''Hello world '' ''#FFD700'' subtitleShadow 960 980]"
    unfolding ls by (simp add: paintedLine_def cw)
  from h ls a b show ?thesis by blast
qed

text \<open>
  The claim as the specification words it has every style other than Classic draw a
  background box. For the narration "Hello world" on the 1920 x 1080 canvas the styles
  \<open>MINIMAL\<close> and \<open>KARAOKE\<close> paint the text only: no box is drawn.
\<close>

theorem subtitle_box_counterexample:
  "paint freshCanvas [] (subtitleOps charWidth10 MINIMAL True 1920 1080 ''Hello world'')
     = [PaintedText ''Hello world '' ''#ffffff'' subtitleShadow 960 980]
   \<and> paint freshCanvas [] (subtitleOps charWidth10 KARAOKE True 1920 1080 ''Hello world'')
     = [PaintedText ''Hello world '' ''#ffffff'' subtitleShadow 960 980]"
  by (simp add: subtitleOps_def Let_def wordWrap_def split_space_def charWidth10_def
      lineOps_def subtitleShadow_def freshCanvas_def shadow_all_set)

section \<open>Properties of the queue\<close>

lemma sum_list_map_update:
  fixes f :: "'a \<Rightarrow> 'b::comm_monoid_add"
  shows "k < length ws \<Longrightarrow> sum_list (map f (ws[k := w])) + f (ws ! k) = sum_list (map f ws) + f w"
proof (induction ws arbitrary: k)
  case Nil
  then show ?case by simp
next
  case (Cons a ws)
  show ?case
  proof (cases k)
    case 0
    then show ?thesis by (simp add: ac_simps)
  next
    case (Suc k')
    with Cons.prems have "k' < length ws" by simp
    from Cons.IH [OF this] Suc show ?thesis by (simp add: ac_simps)
  qed
qed

lemma runNext_length: "length (qWorkers (runNext n k q)) = length (qWorkers q)"
  by (simp add: runNext_def)

lemma queueStep_length: "length (qWorkers (queueStep n succeeds q ev)) = length (qWorkers q)"
  by (auto simp: queueStep_def runNext_def split: queue_event.splits worker.splits)

lemma queueRun_length: "length (qWorkers (queueRun n succeeds q evs)) = length (qWorkers q)"
  by (induction evs arbitrary: q) (simp_all add: queueRun_def queueStep_length)

lemma processQueue_length_aux:
  "length (qWorkers (foldl (\<lambda>q i. spawnWorker n q) q0 [0 ..< l])) = length (qWorkers q0) + l"
  by (induction l) (simp_all add: spawnWorker_def runNext_length)

lemma processQueue_length: "length (qWorkers (processQueue n c)) = min c n"
  by (simp add: processQueue_def processQueue_length_aux emptyQueue_def)

lemma inFlight_le_workers: "inFlight q \<le> length (qWorkers q)"
  by (simp add: inFlight_def)

lemma runNext_inv:
  assumes "queueInv n q" and "k < length (qWorkers q)" and "qWorkers q ! k = Pausing"
  shows "queueInv n (runNext n k q)"
proof (cases "qIndex q \<ge> n")
  case True
  have "sum_list (map taskOf ((qWorkers q)[k := Returned])) + taskOf (qWorkers q ! k)
        = sum_list (map taskOf (qWorkers q)) + taskOf Returned"
    using assms(2) by (rule sum_list_map_update)
  then have "sum_list (map taskOf ((qWorkers q)[k := Returned])) = sum_list (map taskOf (qWorkers q))"
    using assms(3) by (simp add: taskOf_def)
  then show ?thesis using assms(1) True by (simp add: queueInv_def runNext_def)
next
  case False
  have "sum_list (map taskOf ((qWorkers q)[k := Running (qIndex q)])) + taskOf (qWorkers q ! k)
        = sum_list (map taskOf (qWorkers q)) + taskOf (Running (qIndex q))"
    using assms(2) by (rule sum_list_map_update)
  then have tasks: "sum_list (map taskOf ((qWorkers q)[k := Running (qIndex q)]))
        = sum_list (map taskOf (qWorkers q)) + {#qIndex q#}"
    using assms(3) by (simp add: taskOf_def)
  from assms(1) False have noret: "Returned \<notin> set (qWorkers q)"
    by (auto simp: queueInv_def)
  have "set ((qWorkers q)[k := Running (qIndex q)]) \<subseteq> insert (Running (qIndex q)) (set (qWorkers q))"
    by (rule set_update_subset_insert)
  with noret have noret': "Returned \<notin> set ((qWorkers q)[k := Running (qIndex q)])"
    by auto
  from assms(1) have inv: "qStarted q = [0 ..< qIndex q]"
    "mset (qSettled q) + sum_list (map taskOf (qWorkers q)) = mset [0 ..< qIndex q]"
    by (simp_all add: queueInv_def)
  have "mset (qSettled q) + (sum_list (map taskOf (qWorkers q)) + {#qIndex q#})
        = mset [0 ..< qIndex q] + {#qIndex q#}"
    using inv(2) by (simp add: add.assoc [symmetric])
  then show ?thesis
    using False inv(1) tasks noret' by (simp add: queueInv_def runNext_def)
qed

lemma spawnWorker_inv:
  assumes "queueInv n q"
  shows "queueInv n (spawnWorker n q)"
proof -
  let ?q = "q\<lparr>qWorkers := qWorkers q @ [Pausing]\<rparr>"
  have "queueInv n ?q" using assms by (simp add: queueInv_def taskOf_def)
  moreover have "length (qWorkers q) < length (qWorkers ?q)" by simp
  moreover have "qWorkers ?q ! length (qWorkers q) = Pausing" by simp
  ultimately show ?thesis unfolding spawnWorker_def by (rule runNext_inv)
qed

lemma processQueue_inv_aux:
  "queueInv n q0 \<Longrightarrow> queueInv n (foldl (\<lambda>q i. spawnWorker n q) q0 [0 ..< l])"
  by (induction l) (simp_all add: spawnWorker_inv)

lemma processQueue_inv: "queueInv n (processQueue n c)"
  unfolding processQueue_def
  by (rule processQueue_inv_aux) (simp add: queueInv_def emptyQueue_def)

lemma queueStep_inv:
  assumes "queueInv n q"
  shows "queueInv n (queueStep n succeeds q ev)"
proof (cases ev)
  case (TimerFires k)
  then show ?thesis using assms by (simp add: queueStep_def runNext_inv)
next
  case (TaskSettles k)
  show ?thesis
  proof (cases "k < length (qWorkers q) \<and> (\<exists>t. qWorkers q ! k = Running t)")
    case False
    then have "queueStep n succeeds q ev = q"
      using TaskSettles by (auto simp: queueStep_def split: worker.splits)
    then show ?thesis using assms by simp
  next
    case True
    then obtain t where k: "k < length (qWorkers q)" and t: "qWorkers q ! k = Running t"
      by blast
    have "sum_list (map taskOf ((qWorkers q)[k := Pausing])) + taskOf (qWorkers q ! k)
        = sum_list (map taskOf (qWorkers q)) + taskOf Pausing"
      using k by (rule sum_list_map_update)
    then have tasks: "sum_list (map taskOf ((qWorkers q)[k := Pausing])) + {#t#}
        = sum_list (map taskOf (qWorkers q))"
      using t by (simp add: taskOf_def)
    have "set ((qWorkers q)[k := Pausing]) \<subseteq> insert Pausing (set (qWorkers q))"
      by (rule set_update_subset_insert)
    then have ret: "Returned \<in> set ((qWorkers q)[k := Pausing]) \<Longrightarrow> Returned \<in> set (qWorkers q)"
      by auto
    let ?q' = "q\<lparr>qWorkers := (qWorkers q)[k := Pausing], qSettled := qSettled q @ [t],
                 qFailed := (if succeeds t then qFailed q else qFailed q @ [t])\<rparr>"
    have step: "queueStep n succeeds q ev = ?q'"
      using k t TaskSettles by (simp add: queueStep_def)
    from assms have inv: "qIndex q \<le> n" "qStarted q = [0 ..< qIndex q]"
      "mset (qSettled q) + sum_list (map taskOf (qWorkers q)) = mset [0 ..< qIndex q]"
      "Returned \<in> set (qWorkers q) \<longrightarrow> n \<le> qIndex q"
      by (simp_all add: queueInv_def)
    have "mset (qSettled q @ [t]) + sum_list (map taskOf ((qWorkers q)[k := Pausing]))
          = mset (qSettled q) + (sum_list (map taskOf ((qWorkers q)[k := Pausing])) + {#t#})"
      by simp
    also have "\<dots> = mset [0 ..< qIndex q]"
      unfolding tasks by (rule inv(3))
    finally have m: "mset (qSettled ?q') + sum_list (map taskOf (qWorkers ?q')) = mset [0 ..< qIndex ?q']"
      by simp
    have "queueInv n ?q'"
      unfolding queueInv_def using inv(1,2,4) m ret by simp
    then show ?thesis by (simp only: step)
  qed
qed

lemma queueRun_inv: "queueInv n q \<Longrightarrow> queueInv n (queueRun n succeeds q evs)"
  by (induction evs arbitrary: q) (simp_all add: queueRun_def queueStep_inv)

lemma sum_list_taskOf_none:
  "\<forall>w \<in> set ws. taskOf w = {#} \<Longrightarrow> sum_list (map taskOf ws) = {#}"
  by (induction ws) auto

lemma queueDone_all_settled:
  assumes "queueInv n q" and "queueDone q" and "qWorkers q \<noteq> [] \<or> n = 0"
  shows "mset (qSettled q) = mset [0 ..< n] \<and> qStarted q = [0 ..< n]"
proof -
  from assms(2) have all: "\<forall>w \<in> set (qWorkers q). w = Returned"
    by (simp add: queueDone_def list_all_iff)
  then have "\<forall>w \<in> set (qWorkers q). taskOf w = {#}"
    by (auto simp: taskOf_def)
  then have none: "sum_list (map taskOf (qWorkers q)) = {#}"
    by (rule sum_list_taskOf_none)
  have idx: "qIndex q = n"
  proof (cases "n = 0")
    case True
    then show ?thesis using assms(1) by (simp add: queueInv_def)
  next
    case False
    with assms(3) obtain w where "w \<in> set (qWorkers q)" by (cases "qWorkers q") auto
    with all have "Returned \<in> set (qWorkers q)" by auto
    then show ?thesis using assms(1) by (simp add: queueInv_def)
  qed
  from assms(1) none idx show ?thesis by (simp add: queueInv_def)
qed

lemma queueStep_failures_only:
  "(queueStep n succeeds q ev)\<lparr>qFailed := x\<rparr> = queueStep n (\<lambda>t. True) (q\<lparr>qFailed := x\<rparr>) ev"
  by (auto simp: queueStep_def runNext_def split: queue_event.splits worker.splits)

lemma queueRun_failures_only:
  "(queueRun n succeeds q evs)\<lparr>qFailed := x\<rparr> = queueRun n (\<lambda>t. True) (q\<lparr>qFailed := x\<rparr>) evs"
proof (induction evs arbitrary: q)
  case Nil
  then show ?case by (simp add: queueRun_def)
next
  case (Cons ev evs)
  have "(queueRun n succeeds q (ev # evs))\<lparr>qFailed := x\<rparr>
        = (queueRun n succeeds (queueStep n succeeds q ev) evs)\<lparr>qFailed := x\<rparr>"
    by (simp add: queueRun_def)
  also have "\<dots> = queueRun n (\<lambda>t. True) ((queueStep n succeeds q ev)\<lparr>qFailed := x\<rparr>) evs"
    by (rule Cons.IH)
  also have "\<dots> = queueRun n (\<lambda>t. True) (q\<lparr>qFailed := x\<rparr>) (ev # evs)"
    by (simp add: queueStep_failures_only queueRun_def)
  finally show ?case .
qed

lemma queueStep_decreases:
  assumes "\<not> queueDone q"
  shows "\<exists>ev. queueMeasure n (queueStep n succeeds q ev) < queueMeasure n q"
proof -
  from assms obtain k where k: "k < length (qWorkers q)" and nr: "qWorkers q ! k \<noteq> Returned"
    by (auto simp: queueDone_def list_all_length)
  show ?thesis
  proof (cases "qWorkers q ! k")
    case Returned
    with nr show ?thesis by simp
  next
    case (Running t)
    have "sum_list (map workerWeight ((qWorkers q)[k := Pausing])) + workerWeight (qWorkers q ! k)
        = sum_list (map workerWeight (qWorkers q)) + workerWeight Pausing"
      using k by (rule sum_list_map_update)
    then have "sum_list (map workerWeight ((qWorkers q)[k := Pausing])) < sum_list (map workerWeight (qWorkers q))"
      using Running by (simp add: workerWeight_def)
    then have "queueMeasure n (queueStep n succeeds q (TaskSettles k)) < queueMeasure n q"
      using k Running by (simp add: queueMeasure_def queueStep_def)
    then show ?thesis by blast
  next
    case Pausing
    have "queueMeasure n (runNext n k q) < queueMeasure n q"
    proof (cases "qIndex q \<ge> n")
      case True
      have "sum_list (map workerWeight ((qWorkers q)[k := Returned])) + workerWeight (qWorkers q ! k)
        = sum_list (map workerWeight (qWorkers q)) + workerWeight Returned"
        using k by (rule sum_list_map_update)
      then show ?thesis using Pausing True by (simp add: workerWeight_def queueMeasure_def runNext_def)
    next
      case False
      have "sum_list (map workerWeight ((qWorkers q)[k := Running (qIndex q)])) + workerWeight (qWorkers q ! k)
        = sum_list (map workerWeight (qWorkers q)) + workerWeight (Running (qIndex q))"
        using k by (rule sum_list_map_update)
      then have "sum_list (map workerWeight ((qWorkers q)[k := Running (qIndex q)]))
        = sum_list (map workerWeight (qWorkers q)) + 1"
        using Pausing by (simp add: workerWeight_def)
      then show ?thesis using False by (simp add: queueMeasure_def runNext_def)
    qed
    then have "queueMeasure n (queueStep n succeeds q (TimerFires k)) < queueMeasure n q"
      using k Pausing by (simp add: queueStep_def)
    then show ?thesis by blast
  qed
qed

lemma queue_can_finish: "\<exists>evs. queueDone (queueRun n succeeds q evs)"
proof (induction "queueMeasure n q" arbitrary: q rule: less_induct)
  case less
  show ?case
  proof (cases "queueDone q")
    case True
    then have "queueDone (queueRun n succeeds q [])" by (simp add: queueRun_def)
    then show ?thesis by blast
  next
    case False
    from queueStep_decreases [OF this, of n succeeds]
    obtain ev where "queueMeasure n (queueStep n succeeds q ev) < queueMeasure n q" by blast
    from less [OF this] obtain evs where "queueDone (queueRun n succeeds (queueStep n succeeds q ev) evs)"
      by blast
    then have "queueDone (queueRun n succeeds q (ev # evs))" by (simp add: queueRun_def)
    then show ?thesis by blast
  qed
qed

lemma queueRun_append:
  "queueRun n succeeds q (evs @ evs') = queueRun n succeeds (queueRun n succeeds q evs) evs'"
  by (simp add: queueRun_def)

lemma processQueue_failed_aux:
  "qFailed (foldl (\<lambda>q i. spawnWorker n q) q0 [0 ..< l]) = qFailed q0"
  by (induction l) (simp_all add: spawnWorker_def runNext_def)

lemma processQueue_failed: "qFailed (processQueue n c) = []"
  by (simp add: processQueue_def processQueue_failed_aux emptyQueue_def)

text \<open>
  Claim C9. From the queue as \<open>processQueue\<close> sets it up for \<open>n\<close> tasks and the limit \<open>c\<close>,
  after any sequence of settlements and timer events, whichever tasks fail: at most \<open>c\<close>
  tasks are in flight; which tasks have been called and settled, the index and the state
  of every worker are what they would be had no task failed (a failure only adds a line to
  the console); the queue can always be driven on until every worker has returned; and
  when every worker has returned (with \<open>c > 0\<close>), the tasks called are \<open>0 .. n - 1\<close> in order
  and each has settled exactly once.
\<close>

theorem queue_bounded_and_failure_tolerant:
  "inFlight (queueRun n succeeds (processQueue n c) evs) \<le> c
   \<and> (queueRun n succeeds (processQueue n c) evs)\<lparr>qFailed := []\<rparr>
       = queueRun n (\<lambda>t. True) (processQueue n c) evs
   \<and> (\<exists>evs'. queueDone (queueRun n succeeds (processQueue n c) (evs @ evs')))
   \<and> (queueDone (queueRun n succeeds (processQueue n c) evs) \<and> 0 < c \<longrightarrow>
         mset (qSettled (queueRun n succeeds (processQueue n c) evs)) = mset [0 ..< n]
         \<and> qStarted (queueRun n succeeds (processQueue n c) evs) = [0 ..< n])"
proof -
  let ?q = "queueRun n succeeds (processQueue n c) evs"
  have len: "length (qWorkers ?q) = min c n"
    by (simp add: queueRun_length processQueue_length)
  have inv: "queueInv n ?q"
    by (intro queueRun_inv processQueue_inv)
  have a: "inFlight ?q \<le> c"
    using inFlight_le_workers [of ?q] len by simp
  have "(processQueue n c)\<lparr>qFailed := []\<rparr> = processQueue n c"
    using processQueue_failed [of n c] by (cases "processQueue n c") simp
  then have b: "?q\<lparr>qFailed := []\<rparr> = queueRun n (\<lambda>t. True) (processQueue n c) evs"
    using queueRun_failures_only [where n = n and succeeds = succeeds and q = "processQueue n c"
        and evs = evs and x = "[]"]
    by simp
  from queue_can_finish [where n = n and succeeds = succeeds and q = ?q]
  have d: "\<exists>evs'. queueDone (queueRun n succeeds (processQueue n c) (evs @ evs'))"
    by (simp add: queueRun_append)
  have e: "mset (qSettled ?q) = mset [0 ..< n] \<and> qStarted ?q = [0 ..< n]"
    if "queueDone ?q" and "0 < c"
  proof -
    have "qWorkers ?q \<noteq> [] \<or> n = 0"
      using len that(2) by (cases "n = 0") auto
    with inv that(1) show ?thesis by (rule queueDone_all_settled)
  qed
  from a b d e show ?thesis by blast
qed

theorem queue_bounded_and_failure_tolerant_witness:
  "queueDone (queueRun 3 (\<lambda>t. t \<noteq> 1) (processQueue 3 2)
       [TaskSettles 0, TimerFires 0, TaskSettles 1, TimerFires 1, TaskSettles 0, TimerFires 0])
   \<and> (0::nat) < 2
   \<and> qFailed (queueRun 3 (\<lambda>t. t \<noteq> 1) (processQueue 3 2)
       [TaskSettles 0, TimerFires 0, TaskSettles 1, TimerFires 1, TaskSettles 0, TimerFires 0]) = [1]
   \<and> mset (qSettled (queueRun 3 (\<lambda>t. t \<noteq> 1) (processQueue 3 2)
       [TaskSettles 0, TimerFires 0, TaskSettles 1, TimerFires 1, TaskSettles 0, TimerFires 0]))
       = mset [0 ..< 3]
   \<and> qStarted (queueRun 3 (\<lambda>t. t \<noteq> 1) (processQueue 3 2)
       [TaskSettles 0, TimerFires 0, TaskSettles 1, TimerFires 1, TaskSettles 0, TimerFires 0])
       = [0 ..< 3]"
proof -
  let ?evs = "[TaskSettles 0, TimerFires 0, TaskSettles 1, TimerFires 1, TaskSettles 0, TimerFires 0]"
  let ?q = "queueRun 3 (\<lambda>t. t \<noteq> 1) (processQueue 3 2) ?evs"
  have run: "?q = \<lparr>qIndex = 3, qWorkers = [Returned, Returned], qStarted = [0, 1, 2],
                   qSettled = [0, 1, 2], qFailed = [1]\<rparr>"
    by code_simp
  have fin: "queueDone ?q" unfolding run by (simp add: queueDone_def)
  have failed: "qFailed ?q = [1]" unfolding run by simp
  have pos: "(0::nat) < 2" by simp
  from queue_bounded_and_failure_tolerant [of 3 "\<lambda>t. t \<noteq> 1" 2 ?evs] fin pos
  have "mset (qSettled ?q) = mset [0 ..< 3] \<and> qStarted ?q = [0 ..< 3]" by blast
  with fin failed pos show ?thesis by blast
qed

end
